theory Spec2Isabelle
  imports Complex_Main "HOL-Library.Sublist"
begin

section \<open>Liquidity-concentration monitor (index.js)\<close>

text \<open>
  A shallow embedding of \<^verbatim>\<open>src/index.js\<close>. The script reads a roster of
  addresses, fetches each address's Uniswap V3 positions once, and then, once per
  minute, samples the pool and appends one row per address to a CSV log.

  Conventions of the embedding:
  \<^item> the global objects \<^verbatim>\<open>positionsByAddress\<close> and \<^verbatim>\<open>rollingData\<close> are
    maps from address strings, threaded through a state record together with the
    roster, the rows appended to the CSV file and the messages sent to
    \<^verbatim>\<open>console.error\<close>;
  \<^item> every awaited call on a contract is an input: a value of \<open>error + 'a\<close>,
    \<open>Inl\<close> for a rejected promise;
  \<^item> a thrown exception is \<open>Inl\<close> of an \<open>error\<close>;
  \<^item> ticks are integers (\<^verbatim>\<open>int24\<close> decoded by ethers), compared exactly;
  \<^item> a JavaScript Number that holds a non-negative integer is the natural number
    it denotes, and \<^verbatim>\<open>Number(bigint)\<close> and \<^verbatim>\<open>+\<close> round to 53 significant
    bits as IEEE-754 doubles do (\<open>toNumber\<close>, \<open>numAdd\<close>);
  \<^item> a percentage, an average or a price is the real number that its double
    denotes, and every \<^verbatim>\<open>/\<close>, \<^verbatim>\<open>*\<close> and \<^verbatim>\<open>+\<close> that produces one rounds its
    exact result to the nearest double (\<open>roundDouble\<close>). The text produced by
    \<^verbatim>\<open>toFixed\<close> is not modelled: a CSV row is the record of the values that
    the template string formats;
  \<^item> the timer is the list of its firings; what \<^verbatim>\<open>console.log\<close> prints and the
    header line of the CSV file are left out.
\<close>

subsection \<open>Errors\<close>

datatype error =
    RpcError string          \<comment> \<open>a contract call rejected\<close>
  | TypeError                \<comment> \<open>property read on \<^verbatim>\<open>undefined\<close>\<close>
  | RangeError               \<comment> \<open>\<^verbatim>\<open>Array(count)\<close> with an invalid length\<close>
  | PoolNotFound             \<comment> \<open>\<^verbatim>\<open>new Error("Target pool not found.")\<close>\<close>
  | NoChecksumFunction       \<comment> \<open>\<^verbatim>\<open>new Error("No available function for checksum conversion")\<close>\<close>

subsection \<open>Configuration constants\<close>

definition USDC_ADDRESS :: string where
  "USDC_ADDRESS = ''0xA0b86991C6218b36c1d19D4a2e9Eb0cE3606EB48''"

definition OTHER_TOKEN :: string where
  "OTHER_TOKEN = ''0x77E06c9eCCf2E797fd462A92B6D7642EF85b0A44''"

definition FEE :: nat where
  "FEE = 10000"

definition ZERO_ADDRESS :: string where
  "ZERO_ADDRESS = ''0x0000000000000000000000000000000000000000''"

definition WINDOW_SIZE :: nat where
  "WINDOW_SIZE = 72"

subsection \<open>Numbers\<close>

text \<open>
  \<^verbatim>\<open>Number(x)\<close> for a non-negative bigint \<open>x\<close>: the nearest double, ties to the
  even significand. Below \<open>2^53\<close> every integer is a double. From there on the
  low \<open>e\<close> bits beyond the 53-bit significand are rounded away. (A bigint of
  \<open>2^1024\<close> or more would give \<^verbatim>\<open>Infinity\<close>; the values converted here are
  \<^verbatim>\<open>uint256\<close> at most.)
\<close>

fun bitLength :: "nat \<Rightarrow> nat" where
  "bitLength n = (if n = 0 then 0 else Suc (bitLength (n div 2)))"

declare bitLength.simps [simp del]

definition toNumber :: "nat \<Rightarrow> nat" where
  "toNumber n =
     (if n < 2 ^ 53 then n
      else
        let e = bitLength n - 53;
            q = n div 2 ^ e;
            r = n mod 2 ^ e;
            half = 2 ^ (e - 1)
        in if half < r \<or> (r = half \<and> odd q) then (q + 1) * 2 ^ e else q * 2 ^ e)"

text \<open>
  \<^verbatim>\<open>a + b\<close> on two doubles holding non-negative integers: the exact sum,
  rounded to the nearest double.
\<close>

definition numAdd :: "nat \<Rightarrow> nat \<Rightarrow> nat" where
  "numAdd a b = toNumber (a + b)"

text \<open>
  The result of an arithmetic operation on doubles is its exact result rounded to
  the nearest double, ties to the even significand. For \<open>x \<noteq> 0\<close> with
  \<open>2^k \<le> \<bar>x\<bar> < 2^(k+1)\<close> the doubles around \<open>x\<close> are the multiples of
  \<open>2^(k-52)\<close>. (Doubles overflow to \<^verbatim>\<open>Infinity\<close> from \<open>2^1024\<close> and lose
  precision below \<open>2^-1022\<close>; \<open>roundDouble\<close> is the rounding between these, where
  the quotients, products and sums of the script lie.)
\<close>

definition scale2 :: "int \<Rightarrow> real" where
  "scale2 e = (if 0 \<le> e then 2 ^ nat e else 1 / 2 ^ nat (- e))"

definition exponentOf :: "real \<Rightarrow> int" where
  \<comment> \<open>for \<open>0 < x\<close>: the \<open>k\<close> with \<open>2^k \<le> x < 2^(k+1)\<close>\<close>
  "exponentOf x =
     (if 1 \<le> x then int (bitLength (nat \<lfloor>x\<rfloor>)) - 1
      else
        let c = - int (bitLength (nat \<lfloor>1 / x\<rfloor>))
        in if scale2 (c + 1) \<le> x then c + 1 else c)"

definition roundHalfEven :: "real \<Rightarrow> int" where
  "roundHalfEven s =
     (let f = \<lfloor>s\<rfloor>;
          r = s - of_int f
      in if 1 / 2 < r \<or> (r = 1 / 2 \<and> odd f) then f + 1 else f)"

definition roundDouble :: "real \<Rightarrow> real" where
  "roundDouble x =
     (if x = 0 then 0
      else
        let e = exponentOf \<bar>x\<bar> - 52;
            m = roundHalfEven (\<bar>x\<bar> / scale2 e)
        in sgn x * (of_int m * scale2 e))"

subsection \<open>Strings\<close>

text \<open>
  \<^verbatim>\<open>toLowerCase\<close> on the ASCII letters (addresses are hexadecimal text), and
  the \<^verbatim>\<open><\<close> of JavaScript on strings, which compares code units from the left.
\<close>

definition lowerChar :: "char \<Rightarrow> char" where
  "lowerChar c =
     (case map_of (zip ''ABCDEFGHIJKLMNOPQRSTUVWXYZ'' ''abcdefghijklmnopqrstuvwxyz'') c of
        Some l \<Rightarrow> l
      | None \<Rightarrow> c)"

definition toLowerCase :: "string \<Rightarrow> string" where
  "toLowerCase s = map lowerChar s"

fun strLess :: "string \<Rightarrow> string \<Rightarrow> bool" where
  "strLess [] [] = False"
| "strLess [] (y # ys) = True"
| "strLess (x # xs) [] = False"
| "strLess (x # xs) (y # ys) =
     (if (of_char x :: nat) < of_char y then True
      else if (of_char y :: nat) < of_char x then False
      else strLess xs ys)"

subsection \<open>Positions\<close>

text \<open>
  The fields of the \<^verbatim>\<open>positions(tokenId)\<close> reply that the script reads, as
  ethers decodes them (bigints for the integer fields).
\<close>

record raw_position =
  raw_token0 :: string
  raw_token1 :: string
  raw_fee :: nat
  raw_tickLower :: int
  raw_tickUpper :: int
  raw_liquidity :: nat

text \<open>The object the script caches: fee and liquidity converted by \<^verbatim>\<open>Number\<close>.\<close>

record position =
  token0 :: string
  token1 :: string
  fee :: nat
  tickLower :: int
  tickUpper :: int
  liquidity :: nat

definition isPositionActive :: "position \<Rightarrow> int \<Rightarrow> bool" where
  "isPositionActive position currentTick =
     (currentTick \<ge> tickLower position \<and> currentTick < tickUpper position)"

subsection \<open>Fetching the positions of one address\<close>

text \<open>
  The position manager contract, as the outcome of each call the script awaits.
\<close>

record data_source =
  balanceOf :: "string \<Rightarrow> error + nat"
  tokenOfOwnerByIndex :: "string \<Rightarrow> nat \<Rightarrow> error + nat"
  positions :: "nat \<Rightarrow> error + raw_position"
  settles :: "error list \<Rightarrow> nat"

text \<open>
  \<^verbatim>\<open>await Promise.all(calls)\<close>: the list of results when every call is
  fulfilled; otherwise the rejection that settles first. Which of several rejections
  that is depends on the timing of the replies, an input like the replies themselves:
  the field \<open>settles\<close> of the data source gives its index among the rejections.
\<close>

fun rejected :: "(error + 'a) list \<Rightarrow> error list" where
  "rejected [] = []"
| "rejected (Inl e # rs) = e # rejected rs"
| "rejected (Inr x # rs) = rejected rs"

fun fulfilled :: "(error + 'a) list \<Rightarrow> 'a list" where
  "fulfilled [] = []"
| "fulfilled (Inl e # rs) = fulfilled rs"
| "fulfilled (Inr x # rs) = x # fulfilled rs"

definition promiseAll :: "(error list \<Rightarrow> nat) \<Rightarrow> (error + 'a) list \<Rightarrow> error + 'a list" where
  "promiseAll first rs =
     (let errs = rejected rs in
      if errs = [] then Inr (fulfilled rs)
      else Inl (errs ! (first errs mod length errs)))"

definition toPosition :: "raw_position \<Rightarrow> position" where
  "toPosition pos =
     \<lparr>token0 = raw_token0 pos,
      token1 = raw_token1 pos,
      fee = toNumber (raw_fee pos),
      tickLower = raw_tickLower pos,
      tickUpper = raw_tickUpper pos,
      liquidity = toNumber (raw_liquidity pos)\<rparr>"

text \<open>The predicate of the \<^verbatim>\<open>.filter\<close> call (lines 100 to 112).\<close>

definition matchesTargetPool :: "position \<Rightarrow> bool" where
  "matchesTargetPool pos =
     (let isDirect =
            (toLowerCase (token0 pos) = toLowerCase USDC_ADDRESS \<and>
             toLowerCase (token1 pos) = toLowerCase OTHER_TOKEN \<and>
             fee pos = FEE);
          isReversed =
            (toLowerCase (token0 pos) = toLowerCase OTHER_TOKEN \<and>
             toLowerCase (token1 pos) = toLowerCase USDC_ADDRESS \<and>
             fee pos = FEE)
      in isDirect \<or> isReversed)"

definition filterTargetPool :: "position list \<Rightarrow> position list" where
  "filterTargetPool ps = filter matchesTargetPool ps"

text \<open>
  The body of the \<^verbatim>\<open>try\<close> block of \<^verbatim>\<open>fetchPositionsForAddress\<close>.
  \<^verbatim>\<open>Array(count)\<close> throws a RangeError for a length of \<open>2^32\<close> or more.
\<close>

definition fetchPositionsTry :: "data_source \<Rightarrow> string \<Rightarrow> error + position list" where
  "fetchPositionsTry src addr =
     (case balanceOf src addr of
        Inl err \<Rightarrow> Inl err
      | Inr balance \<Rightarrow>
          let count = toNumber balance in
          if count = 0 then Inr []
          else if 2 ^ 32 \<le> count then Inl RangeError
          else
            (case promiseAll (settles src)
                    (map (\<lambda>i. tokenOfOwnerByIndex src addr i) [0..<count]) of
               Inl err \<Rightarrow> Inl err
             | Inr tokenIds \<Rightarrow>
                 (case promiseAll (settles src) (map (\<lambda>id. positions src id) tokenIds) of
                    Inl err \<Rightarrow> Inl err
                  | Inr rawPositions \<Rightarrow>
                      Inr (filterTargetPool (map toPosition rawPositions)))))"

text \<open>What the script sends to \<^verbatim>\<open>console.error\<close>.\<close>

datatype console_error =
    FetchPositionsError string error   \<comment> \<open>\<^verbatim>\<open>Error fetching positions for ${addr}: ${err}\<close>\<close>
  | UpdateLoopError error              \<comment> \<open>\<^verbatim>\<open>Error in updateLoop:\<close>\<close>
  | Warning error                      \<comment> \<open>\<^verbatim>\<open>Warning:\<close>\<close>

text \<open>
  \<^verbatim>\<open>fetchPositionsForAddress\<close>: the \<^verbatim>\<open>catch\<close> clause logs the error and
  returns the empty array. The result is the returned array and the messages logged.
\<close>

definition fetchPositionsForAddress ::
  "data_source \<Rightarrow> string \<Rightarrow> position list \<times> console_error list" where
  "fetchPositionsForAddress src addr =
     (case fetchPositionsTry src addr of
        Inl err \<Rightarrow> ([], [FetchPositionsError addr err])
      | Inr ps \<Rightarrow> (ps, []))"

subsection \<open>Program state\<close>

text \<open>
  One row of \<^verbatim>\<open>liquidity_log.csv\<close>, in the column order of the header. The
  tick and price columns are \<open>None\<close> where the script writes \<^verbatim>\<open>N/A\<close>.
\<close>

record log_row =
  row_timestamp :: string
  row_address :: string
  row_activeLiquidity :: nat
  row_percentageOfDepth :: real
  row_rollingAvg :: real
  row_currentTick :: "int option"
  row_currentPrice :: "real option"

record state =
  addresses :: "string list"
  positionsByAddress :: "string \<rightharpoonup> position list"
  rollingData :: "string \<rightharpoonup> real list"
  csv :: "log_row list"
  stderr :: "console_error list"

definition initialState :: "string list \<Rightarrow> state" where
  "initialState addrs =
     \<lparr>addresses = addrs, positionsByAddress = Map.empty, rollingData = Map.empty,
      csv = [], stderr = []\<rparr>"

fun loadPositionsLoop :: "data_source \<Rightarrow> string list \<Rightarrow> state \<Rightarrow> state" where
  "loadPositionsLoop src [] st = st"
| "loadPositionsLoop src (addr # rest) st =
     (case fetchPositionsForAddress src addr of
        (pos, errs) \<Rightarrow>
          loadPositionsLoop src rest
            (st\<lparr>positionsByAddress := (positionsByAddress st)(addr \<mapsto> pos),
                rollingData := (rollingData st)(addr \<mapsto> []),
                stderr := stderr st @ errs\<rparr>))"

definition loadAllPositions :: "data_source \<Rightarrow> state \<Rightarrow> state" where
  "loadAllPositions src st = loadPositionsLoop src (addresses st) st"

subsection \<open>Resolving the pool\<close>

text \<open>
  The two places where the ethers library may offer \<^verbatim>\<open>getAddress\<close>; the
  checksum itself is the library's.
\<close>

record ethers_lib =
  getAddress :: "(string \<Rightarrow> error + string) option"
  utils_getAddress :: "(string \<Rightarrow> error + string) option"

definition toChecksumAddress :: "ethers_lib \<Rightarrow> string \<Rightarrow> error + string" where
  "toChecksumAddress ethers address =
     (let address = toLowerCase address in
      case getAddress ethers of
        Some f \<Rightarrow> f address
      | None \<Rightarrow>
          (case utils_getAddress ethers of
             Some g \<Rightarrow> g address
           | None \<Rightarrow> Inl NoChecksumFunction))"

definition positionsOrEmpty :: "state \<Rightarrow> string \<Rightarrow> position list" where
  \<comment> \<open>\<^verbatim>\<open>positionsByAddress[addr] || []\<close>\<close>
  "positionsOrEmpty st addr = (case positionsByAddress st addr of None \<Rightarrow> [] | Some ps \<Rightarrow> ps)"

definition totalPositions :: "state \<Rightarrow> nat" where
  "totalPositions st =
     foldl (\<lambda>total addr. total + length (positionsOrEmpty st addr)) 0 (addresses st)"

text \<open>
  \<^verbatim>\<open>getTargetPoolAddress\<close>. The factory's \<^verbatim>\<open>getPool\<close> is an input; the
  second component of the result lists the queries sent to it.
\<close>

type_synonym factory = "string \<Rightarrow> string \<Rightarrow> nat \<Rightarrow> error + string"

definition getTargetPoolAddress ::
  "ethers_lib \<Rightarrow> factory \<Rightarrow> state \<Rightarrow> (error + string option) \<times> (string \<times> string \<times> nat) list" where
  "getTargetPoolAddress ethers getPool st =
     (if totalPositions st = 0 then (Inr None, [])
      else
        (case toChecksumAddress ethers USDC_ADDRESS of
           Inl err \<Rightarrow> (Inl err, [])
         | Inr usdc \<Rightarrow>
             (case toChecksumAddress ethers OTHER_TOKEN of
                Inl err \<Rightarrow> (Inl err, [])
              | Inr other \<Rightarrow>
                  let tokenA = (if strLess usdc other then usdc else other);
                      tokenB = (if strLess usdc other then other else usdc)
                  in (case getPool tokenA tokenB FEE of
                        Inl err \<Rightarrow> (Inl err, [(tokenA, tokenB, FEE)])
                      | Inr poolAddress \<Rightarrow>
                          if poolAddress = [] \<or> poolAddress = ZERO_ADDRESS
                          then (Inl PoolNotFound, [(tokenA, tokenB, FEE)])
                          else (Inr (Some poolAddress), [(tokenA, tokenB, FEE)])))))"

subsection \<open>The rolling window\<close>

text \<open>
  \<^verbatim>\<open>store.values.push(v); if (store.values.length > WINDOW_SIZE) store.values.shift();\<close>
  and the two lines that follow it, which the script repeats in each of its three
  logging loops.
\<close>

definition pushValue :: "real \<Rightarrow> real list \<Rightarrow> real list" where
  "pushValue v values =
     (let pushed = values @ [v] in
      if length pushed > WINDOW_SIZE then tl pushed else pushed)"

definition rollingAvgOf :: "real list \<Rightarrow> real" where
  "rollingAvgOf values =
     (let sum = foldl (\<lambda>acc val. roundDouble (acc + val)) 0 values
      in roundDouble (sum / real (length values)))"

subsection \<open>The update loops\<close>

text \<open>\<^verbatim>\<open>(activeLiquidity / poolTotalLiquidity) * 100\<close> (line 207).\<close>

definition percentageOf :: "nat \<Rightarrow> nat \<Rightarrow> real" where
  "percentageOf activeLiquidity poolTotalLiquidity =
     roundDouble (roundDouble (real activeLiquidity / real poolTotalLiquidity) * 100)"

text \<open>The inner loop of \<^verbatim>\<open>updateLoop\<close> (lines 178 to 183).\<close>

definition activeLiquidityOf :: "position list \<Rightarrow> int \<Rightarrow> nat" where
  "activeLiquidityOf ps currentTick =
     foldl (\<lambda>activeLiquidity pos.
              if isPositionActive pos currentTick
              then numAdd activeLiquidity (liquidity pos)
              else activeLiquidity) 0 ps"

definition activeLiquidityByAddress :: "state \<Rightarrow> int \<Rightarrow> string \<Rightarrow> nat" where
  \<comment> \<open>the object filled at lines 175 to 185, read back at line 206 for the same roster\<close>
  "activeLiquidityByAddress st currentTick addr =
     activeLiquidityOf (positionsOrEmpty st addr) currentTick"

text \<open>
  The logging loop over the roster. The script has it three times (lines 190 to 199,
  205 to 215 and 225 to 233); the three differ in the active liquidity and the
  percentage of an address (\<open>entry\<close>) and in the tick and price columns.
  Reading \<^verbatim>\<open>store.values\<close> for an address without a store throws a TypeError,
  which leaves the loop with the rows written so far.
\<close>

fun logRows ::
  "string \<Rightarrow> (string \<Rightarrow> nat \<times> real) \<Rightarrow> int option \<Rightarrow> real option \<Rightarrow>
   string list \<Rightarrow> state \<Rightarrow> state \<times> error option" where
  "logRows timestamp entry tickColumn priceColumn [] st = (st, None)"
| "logRows timestamp entry tickColumn priceColumn (addr # rest) st =
     (case rollingData st addr of
        None \<Rightarrow> (st, Some TypeError)
      | Some values \<Rightarrow>
          let activeLiquidity = fst (entry addr);
              percentage = snd (entry addr);
              values' = pushValue percentage values;
              rollingAvg = rollingAvgOf values';
              logLine =
                \<lparr>row_timestamp = timestamp,
                 row_address = addr,
                 row_activeLiquidity = activeLiquidity,
                 row_percentageOfDepth = percentage,
                 row_rollingAvg = rollingAvg,
                 row_currentTick = tickColumn,
                 row_currentPrice = priceColumn\<rparr>
          in logRows timestamp entry tickColumn priceColumn rest
               (st\<lparr>rollingData := (rollingData st)(addr \<mapsto> values'),
                   csv := csv st @ [logLine]\<rparr>))"

text \<open>The pool contract in one cycle: the outcome of its two calls.\<close>

record slot0_reply =
  sqrtPriceX96 :: nat
  tick :: int

record pool_contract =
  slot0 :: "error + slot0_reply"
  pool_liquidity :: "error + nat"

definition catchUpdateLoop :: "state \<times> error option \<Rightarrow> state" where
  \<comment> \<open>the \<^verbatim>\<open>catch\<close> clause of \<^verbatim>\<open>updateLoop\<close>\<close>
  "catchUpdateLoop r =
     (case r of
        (st, None) \<Rightarrow> st
      | (st, Some err) \<Rightarrow> st\<lparr>stderr := stderr st @ [UpdateLoopError err]\<rparr>)"

text \<open>
  \<^verbatim>\<open>updateLoop\<close>. The price of line 170 is the square of a double (taken as
  correctly rounded, as a product is) divided by \<open>2^192\<close>.
\<close>

definition updateLoop :: "pool_contract \<Rightarrow> string \<Rightarrow> state \<Rightarrow> state" where
  "updateLoop poolContract timestamp st =
     catchUpdateLoop
       (case slot0 poolContract of
          Inl err \<Rightarrow> (st, Some err)
        | Inr s0 \<Rightarrow>
            let currentTick = tick s0;
                currentPrice =
                  roundDouble (roundDouble ((real (toNumber (sqrtPriceX96 s0))) ^ 2) / 2 ^ 192)
            in (case pool_liquidity poolContract of
                  Inl err \<Rightarrow> (st, Some err)
                | Inr liq \<Rightarrow>
                    let poolTotalLiquidity = toNumber liq in
                    if poolTotalLiquidity = 0
                    then logRows timestamp (\<lambda>addr. (0, 0))
                           (Some currentTick) (Some currentPrice) (addresses st) st
                    else logRows timestamp
                           (\<lambda>addr.
                              let activeLiquidity = activeLiquidityByAddress st currentTick addr;
                                  percentage =
                                    percentageOf activeLiquidity poolTotalLiquidity
                              in (activeLiquidity, percentage))
                           (Some currentTick) (Some currentPrice) (addresses st) st))"

text \<open>\<^verbatim>\<open>updateLoopNoPool\<close> has no \<^verbatim>\<open>try\<close>: an exception leaves the function.\<close>

definition updateLoopNoPool :: "string \<Rightarrow> state \<Rightarrow> state \<times> error option" where
  "updateLoopNoPool timestamp st =
     logRows timestamp (\<lambda>addr. (0, 0)) None None (addresses st) st"

subsection \<open>Startup and the scheduler\<close>

datatype mode = ActiveMode string | DegradedMode

text \<open>
  \<^verbatim>\<open>main\<close> up to the choice of the loop: load the positions, resolve the pool
  (an exception becomes a warning and \<^verbatim>\<open>null\<close>), and test \<^verbatim>\<open>!poolAddress\<close>.
  The result carries the queries sent to the factory.
\<close>

definition startup ::
  "data_source \<Rightarrow> ethers_lib \<Rightarrow> factory \<Rightarrow> string list \<Rightarrow>
   state \<times> mode \<times> (string \<times> string \<times> nat) list" where
  "startup src ethers getPool addrs =
     (let st = loadAllPositions src (initialState addrs) in
      case getTargetPoolAddress ethers getPool st of
        (Inl err, queries) \<Rightarrow> (st\<lparr>stderr := stderr st @ [Warning err]\<rparr>, DegradedMode, queries)
      | (Inr None, queries) \<Rightarrow> (st, DegradedMode, queries)
      | (Inr (Some poolAddress), queries) \<Rightarrow>
          (st, if poolAddress = [] then DegradedMode else ActiveMode poolAddress, queries))"

text \<open>
  One firing of the timer: the time it reads and, in active mode, what the pool
  contract replies. The mode chosen at startup decides which loop every cycle runs.
\<close>

record cycle_input =
  now :: string
  pool :: pool_contract

definition cycle :: "mode \<Rightarrow> cycle_input \<Rightarrow> state \<Rightarrow> state \<times> error option" where
  "cycle m inp st =
     (case m of
        ActiveMode poolAddress \<Rightarrow> (updateLoop (pool inp) (now inp) st, None)
      | DegradedMode \<Rightarrow> updateLoopNoPool (now inp) st)"

fun runCycles :: "mode \<Rightarrow> cycle_input list \<Rightarrow> state \<Rightarrow> state \<times> error option" where
  "runCycles m [] st = (st, None)"
| "runCycles m (inp # inps) st =
     (case cycle m inp st of
        (st', Some err) \<Rightarrow> (st', Some err)
      | (st', None) \<Rightarrow> runCycles m inps st')"

definition main ::
  "data_source \<Rightarrow> ethers_lib \<Rightarrow> factory \<Rightarrow> string list \<Rightarrow> cycle_input list \<Rightarrow>
   state \<times> error option" where
  "main src ethers getPool addrs inps =
     (case startup src ethers getPool addrs of
        (st, m, queries) \<Rightarrow> runCycles m inps st)"

text \<open>The percentages logged for an address, oldest first.\<close>

definition pushedFor :: "string \<Rightarrow> log_row list \<Rightarrow> real list" where
  "pushedFor addr rows = map row_percentageOfDepth (filter (\<lambda>r. row_address r = addr) rows)"

text \<open>The rows a step appended to the CSV file.\<close>

definition newRows :: "state \<Rightarrow> state \<Rightarrow> log_row list" where
  "newRows st st' = drop (length (csv st)) (csv st')"

text \<open>
  Every address of the roster has its store in \<^verbatim>\<open>rollingData\<close>, as
  \<^verbatim>\<open>loadAllPositions\<close> leaves it.
\<close>

definition storesLoaded :: "state \<Rightarrow> bool" where
  "storesLoaded st = list_all (\<lambda>addr. rollingData st addr \<noteq> None) (addresses st)"

subsection \<open>Example inputs\<close>

text \<open>
  The position of the specification's end-to-end scenarios (ticks \<open>-100\<close> to \<open>100\<close>,
  liquidity \<open>500\<close>), a state with two tracked addresses of which the first holds
  that position and has one earlier sample in its window, and pool replies.
\<close>

definition examplePosition :: position where
  "examplePosition =
     \<lparr>token0 = USDC_ADDRESS, token1 = OTHER_TOKEN, fee = 10000,
      tickLower = - 100, tickUpper = 100, liquidity = 500\<rparr>"

definition exampleState :: state where
  "exampleState =
     \<lparr>addresses = [''0xA1'', ''0xB2''],
      positionsByAddress = [''0xA1'' \<mapsto> [examplePosition], ''0xB2'' \<mapsto> []],
      rollingData = [''0xA1'' \<mapsto> [50], ''0xB2'' \<mapsto> []],
      csv = [],
      stderr = []\<rparr>"

definition examplePool :: "nat \<Rightarrow> pool_contract" where
  "examplePool liq =
     \<lparr>slot0 = Inr \<lparr>sqrtPriceX96 = 2 ^ 96, tick = 0\<rparr>, pool_liquidity = Inr liq\<rparr>"

definition failingPool :: pool_contract where
  "failingPool = \<lparr>slot0 = Inl (RpcError ''timeout''), pool_liquidity = Inr 1000\<rparr>"

text \<open>
  One address with two positions of liquidity \<open>2\<close>, the one in range from tick
  \<open>-100\<close> and the other from tick \<open>0\<close>, and a pool of total liquidity \<open>18\<close> at a
  given tick: the address holds \<open>2/18\<close> of the pool at tick \<open>-50\<close> and \<open>4/18\<close> at
  tick \<open>50\<close>.
\<close>

definition twoRangeState :: state where
  "twoRangeState =
     \<lparr>addresses = [''0xA1''],
      positionsByAddress =
        [''0xA1'' \<mapsto> [examplePosition\<lparr>liquidity := 2\<rparr>,
                      examplePosition\<lparr>tickLower := 0, liquidity := 2\<rparr>]],
      rollingData = [''0xA1'' \<mapsto> []],
      csv = [],
      stderr = []\<rparr>"

definition poolAtTick :: "int \<Rightarrow> pool_contract" where
  "poolAtTick t =
     \<lparr>slot0 = Inr \<lparr>sqrtPriceX96 = 2 ^ 96, tick = t\<rparr>, pool_liquidity = Inr 18\<rparr>"

text \<open>
  A position manager that answers \<open>bal\<close> to \<^verbatim>\<open>balanceOf\<close> and \<open>pos\<close> to
  \<^verbatim>\<open>positions\<close> and whose first rejection in call order settles first, a
  library with \<^verbatim>\<open>getAddress\<close>, and a factory that knows
  a pool for every pair.
\<close>

definition exampleSource :: "error + nat \<Rightarrow> error + raw_position \<Rightarrow> data_source" where
  "exampleSource bal pos =
     \<lparr>balanceOf = (\<lambda>owner. bal),
      tokenOfOwnerByIndex = (\<lambda>owner i. Inr (7 + i)),
      positions = (\<lambda>tokenId. pos),
      settles = (\<lambda>errs. 0)\<rparr>"

definition exampleRawPosition :: raw_position where
  "exampleRawPosition =
     \<lparr>raw_token0 = USDC_ADDRESS, raw_token1 = OTHER_TOKEN, raw_fee = 10000,
      raw_tickLower = - 100, raw_tickUpper = 100, raw_liquidity = 500\<rparr>"

definition exampleEthers :: ethers_lib where
  "exampleEthers = \<lparr>getAddress = Some (\<lambda>a. Inr a), utils_getAddress = None\<rparr>"

definition exampleFactory :: factory where
  "exampleFactory tokenA tokenB feeTier = Inr ''0xP001''"

section \<open>Properties\<close>

subsection \<open>Tick-range membership\<close>

text \<open>
  C1. A position is active exactly when the current tick lies in the half-open range
  from \<open>tickLower\<close> (inclusive) to \<open>tickUpper\<close> (exclusive). A tick equal to
  \<open>tickUpper\<close> is inactive; a tick equal to \<open>tickLower\<close> is active (the lower bound is
  inclusive) for every position whose range is not empty.
\<close>

theorem isPositionActive_half_open:
  "(isPositionActive p t \<longleftrightarrow> tickLower p \<le> t \<and> t < tickUpper p)
   \<and> \<not> isPositionActive p (tickUpper p)
   \<and> (tickLower p < tickUpper p \<longrightarrow> isPositionActive p (tickLower p))"
  by (simp add: isPositionActive_def)

theorem isPositionActive_half_open_witness:
  "(isPositionActive \<lparr>token0 = USDC_ADDRESS, token1 = OTHER_TOKEN, fee = 10000,
       tickLower = - 100, tickUpper = 100, liquidity = 500\<rparr> 0)
   \<and> \<not> isPositionActive \<lparr>token0 = USDC_ADDRESS, token1 = OTHER_TOKEN, fee = 10000,
       tickLower = - 100, tickUpper = 100, liquidity = 500\<rparr> 100
   \<and> isPositionActive \<lparr>token0 = USDC_ADDRESS, token1 = OTHER_TOKEN, fee = 10000,
       tickLower = - 100, tickUpper = 100, liquidity = 500\<rparr> (- 100)"
  using isPositionActive_half_open
    [of "\<lparr>token0 = USDC_ADDRESS, token1 = OTHER_TOKEN, fee = 10000,
          tickLower = - 100, tickUpper = 100, liquidity = 500\<rparr>" 0]
  by simp

subsection \<open>Conversion to Number\<close>

lemma bitLength_pow2: "bitLength (2 ^ k) = Suc k"
proof (induction k)
  case 0
  show ?case by (simp add: bitLength.simps [of "Suc 0"] bitLength.simps [of 0])
next
  case (Suc k)
  show ?case using Suc by (subst bitLength.simps) simp
qed

lemma toNumber_exact: "n \<le> 2 ^ 53 \<Longrightarrow> toNumber n = n"
proof (cases "n < 2 ^ 53")
  case True
  then show ?thesis by (simp add: toNumber_def)
next
  case False
  assume "n \<le> 2 ^ 53"
  with False have n: "n = 2 ^ 53" by simp
  have "bitLength n = 54" unfolding n using bitLength_pow2 [of 53] by simp
  then show ?thesis unfolding toNumber_def n by (simp add: Let_def)
qed

lemma toNumber_0 [simp]: "toNumber 0 = 0"
  by (simp add: toNumber_def)

lemma bitLength_2_53_plus_1: "bitLength 9007199254740993 = 54"
  by (simp add: bitLength.simps)

lemma toNumber_2_53_plus_1: "toNumber 9007199254740993 = 9007199254740992"
  by (simp add: toNumber_def bitLength_2_53_plus_1)

subsection \<open>Rounding to a double\<close>

lemma roundDouble_0 [simp]: "roundDouble 0 = 0"
  by (simp add: roundDouble_def)

text \<open>
  On the integers \<open>roundDouble\<close> is \<open>toNumber\<close>: the two roundings of the model
  agree, and an integer below \<open>2^53\<close> is its own double.
\<close>

lemma bitLength_bounds: "0 < n \<Longrightarrow> 2 ^ (bitLength n - 1) \<le> n \<and> n < 2 ^ bitLength n"
proof (induction n rule: bitLength.induct)
  case (1 n)
  show ?case
  proof (cases "n div 2 = 0")
    case True
    with "1.prems" have "n = 1" by (simp add: div_eq_0_iff) 
    then show ?thesis by (simp add: bitLength.simps [of "Suc 0"] bitLength.simps [of 0])
  next
    case False
    then have pos: "0 < n div 2" by simp
    from "1.prems" have n0: "n \<noteq> 0" by simp
    from "1.IH" [OF n0 pos]
    have lo: "2 ^ (bitLength (n div 2) - 1) \<le> n div 2" and hi: "n div 2 < 2 ^ bitLength (n div 2)"
      by simp_all
    have b: "bitLength n = Suc (bitLength (n div 2))"
      using n0 by (subst bitLength.simps) simp
    from pos have bpos: "0 < bitLength (n div 2)"
      by (subst bitLength.simps) simp
    from lo have "2 * 2 ^ (bitLength (n div 2) - 1) \<le> n" by simp
    with bpos have l: "2 ^ (bitLength n - 1) \<le> n"
      unfolding b by (cases "bitLength (n div 2)") simp_all
    from hi have "n < 2 * 2 ^ bitLength (n div 2)" by simp
    then have h: "n < 2 ^ bitLength n" unfolding b by simp
    from l h show ?thesis ..
  qed
qed

lemma scale2_neg: "scale2 (- int k) = 1 / 2 ^ k"
  by (auto simp: scale2_def)

lemma roundHalfEven_of_int: "roundHalfEven (of_int z) = z"
  by (simp add: roundHalfEven_def)

lemma roundDouble_of_nat_small:
  assumes "n < 2 ^ 53"
  shows "roundDouble (real n) = real n"
proof (cases "n = 0")
  case True
  then show ?thesis by simp
next
  case False
  then have pos: "0 < n" by simp
  let ?b = "bitLength n"
  from bitLength_bounds [OF pos] have lo: "2 ^ (?b - 1) \<le> n" and hi: "n < 2 ^ ?b" by simp_all
  from lo assms have "(2::nat) ^ (?b - 1) < 2 ^ 53" by (rule le_less_trans)
  then have b53: "?b - 1 < 53" by (rule power_less_imp_less_exp [rotated]) simp
  from pos have bpos: "0 < ?b" by (subst bitLength.simps) simp
  from pos have ex: "exponentOf (real n) = int ?b - 1"
    by (simp add: exponentOf_def)
  let ?k = "53 - ?b"
  from b53 bpos have e: "int ?b - 1 - 52 = - int ?k" by simp
  have sc: "scale2 (- int ?k) = 1 / 2 ^ ?k"
    by (rule scale2_neg)
  have "real n * 2 ^ ?k = of_int (int (n * 2 ^ ?k))"
    by simp
  then have m: "roundHalfEven (real n * 2 ^ ?k) = int (n * 2 ^ ?k)"
    by (simp only: roundHalfEven_of_int)
  from pos show ?thesis
    by (simp add: roundDouble_def ex e m sc Let_def)
qed

lemma roundHalfEven_div:
  assumes d: "d = 2 * h" and h: "0 < h"
  shows "roundHalfEven (real n / real d)
         = (if h < n mod d \<or> (n mod d = h \<and> odd (n div d)) then int (n div d) + 1
            else int (n div d))"
proof -
  from d h have dpos: "0 < d" by simp
  have f: "\<lfloor>real n / real d\<rfloor> = int (n div d)"
    by (rule floor_divide_of_nat_eq)
  have "real n = real (n div d) * real d + real (n mod d)"
    by (metis of_nat_add of_nat_mult div_mult_mod_eq)
  with dpos have r: "real n / real d - real (n div d) = real (n mod d) / real d"
    by (simp add: field_simps)
  have half: "real d / 2 = real h" using d by simp
  have gt: "(1 / 2 < real (n mod d) / real d) = (h < n mod d)"
  proof -
    have "(1 / 2 < real (n mod d) / real d) = (real d / 2 < real (n mod d))"
      using dpos by (simp add: field_simps)
    also have "\<dots> = (h < n mod d)" unfolding half by simp
    finally show ?thesis .
  qed
  have eq: "(real (n mod d) / real d = 1 / 2) = (n mod d = h)"
  proof -
    have "(real (n mod d) / real d = 1 / 2) = (real (n mod d) = real d / 2)"
      using dpos by (auto simp: field_simps)
    also have "\<dots> = (n mod d = h)" unfolding half by simp
    finally show ?thesis .
  qed
  show ?thesis
    unfolding roundHalfEven_def Let_def f
    by (simp only: of_int_of_nat_eq r gt eq even_of_nat)
qed

lemma roundDouble_of_nat_large:
  assumes "2 ^ 53 \<le> n"
  shows "roundDouble (real n) = real (toNumber n)"
proof -
  let ?b = "bitLength n"
  let ?e = "?b - 53"
  from assms have pos: "0 < n" by (simp add: less_le_trans [of 0 "2 ^ 53" n])
  from bitLength_bounds [OF pos] have hi: "n < 2 ^ ?b" by simp
  with assms have "(2::nat) ^ 53 < 2 ^ ?b" by (rule le_less_trans)
  then have b: "53 < ?b" by (rule power_less_imp_less_exp [rotated]) simp
  then have e: "int ?b - 1 - 52 = int ?e" and epos: "0 < ?e" by simp_all
  from pos have one: "1 \<le> real n" by simp
  then have ex: "exponentOf (real n) = int ?b - 1"
    by (simp add: exponentOf_def)
  have sc: "scale2 (int ?e) = real (2 ^ ?e)"
    by (simp add: scale2_def)
  from epos have d: "(2::nat) ^ ?e = 2 * 2 ^ (?e - 1)"
    by (cases ?e) simp_all
  let ?d = "(2::nat) ^ ?e"
  let ?h = "(2::nat) ^ (?e - 1)"
  let ?up = "?h < n mod ?d \<or> (n mod ?d = ?h \<and> odd (n div ?d))"
  have hpos: "0 < ?h" by simp
  note m = roundHalfEven_div [OF d hpos, of n]
  from pos have nz: "real n \<noteq> 0" by simp
  have e': "int ?b - 53 = int ?e" using b by simp
  have rd: "roundDouble (real n) = of_int (roundHalfEven (real n / real ?d)) * real ?d"
    using nz by (simp add: roundDouble_def Let_def ex e e' sc del: of_nat_power)
  from assms have big: "\<not> n < 2 ^ 53" by simp
  have tn: "toNumber n = (if ?up then (n div ?d + 1) * ?d else n div ?d * ?d)"
    using big by (simp add: toNumber_def Let_def)
  show ?thesis
  proof (cases ?up)
    case True
    with m have "roundHalfEven (real n / real ?d) = int (n div ?d) + 1" by simp
    moreover from True tn have "toNumber n = (n div ?d + 1) * ?d" by simp
    ultimately show ?thesis unfolding rd by (simp del: of_nat_power add: algebra_simps)
  next
    case False
    with m have "roundHalfEven (real n / real ?d) = int (n div ?d)" by simp
    moreover from False tn have "toNumber n = n div ?d * ?d" by simp
    ultimately show ?thesis unfolding rd by (simp del: of_nat_power)
  qed
qed

lemma roundDouble_of_nat: "roundDouble (real n) = real (toNumber n)"
proof (cases "n < 2 ^ 53")
  case True
  then show ?thesis by (simp add: roundDouble_of_nat_small toNumber_def)
next
  case False
  then have "2 ^ 53 \<le> n" by simp
  then show ?thesis by (rule roundDouble_of_nat_large)
qed

lemmas roundDouble_eval =
  roundDouble_def exponentOf_def scale2_def roundHalfEven_def Let_def bitLength.simps

lemma roundDouble_examples:
  "roundDouble 25 = 25" "roundDouble 50 = 50" "roundDouble 100 = 100"
  "roundDouble (1 / 2) = 1 / 2"
  by (simp_all add: roundDouble_eval)

lemma percentageOf_0 [simp]: "percentageOf 0 t = 0"
  by (simp add: percentageOf_def)

lemma percentageOf_examples:
  "percentageOf 500 1000 = 50"
  "percentageOf 2 18 = 3127499741229511 / 2 ^ 48"
  "percentageOf 4 18 = 3127499741229511 / 2 ^ 47"
  by (simp_all add: percentageOf_def roundDouble_eval)

subsection \<open>The rolling window\<close>

lemma pushValue_drop:
  assumes "length w \<le> WINDOW_SIZE"
  shows "pushValue v w = drop (Suc (length w) - WINDOW_SIZE) (w @ [v])"
proof (cases "length w = WINDOW_SIZE")
  case True
  then have "Suc (length w) - WINDOW_SIZE = Suc 0" by simp
  moreover have "pushValue v w = tl (w @ [v])"
    using True by (simp add: pushValue_def Let_def)
  ultimately show ?thesis by (simp only: drop_Suc drop_0)
next
  case False
  with assms have "length w < WINDOW_SIZE" by simp
  then show ?thesis by (simp add: pushValue_def Let_def)
qed

lemma pushValue_length: "length w \<le> WINDOW_SIZE \<Longrightarrow> length (pushValue v w) \<le> WINDOW_SIZE"
  by (auto simp: pushValue_def Let_def)

lemma pushValue_last: "pushValue v w \<noteq> [] \<and> last (pushValue v w) = v"
  by (cases w) (auto simp: pushValue_def Let_def WINDOW_SIZE_def last_tl)

lemma pushes_drop:
  "foldl (\<lambda>values v. pushValue v values) [] pushed = drop (length pushed - WINDOW_SIZE) pushed"
proof (induction pushed rule: rev_induct)
  case Nil
  show ?case by simp
next
  case (snoc v vs)
  let ?w = "drop (length vs - WINDOW_SIZE) vs"
  have len: "length ?w \<le> WINDOW_SIZE" by simp
  have "foldl (\<lambda>values v. pushValue v values) [] (vs @ [v]) = pushValue v ?w"
    using snoc by simp
  also have "\<dots> = drop (Suc (length ?w) - WINDOW_SIZE) (?w @ [v])"
    by (rule pushValue_drop [OF len])
  also have "\<dots> = drop (length (vs @ [v]) - WINDOW_SIZE) (vs @ [v])"
    by (cases "length vs \<le> WINDOW_SIZE") (auto simp: Suc_diff_le)
  finally show ?case .
qed

subsection \<open>Active liquidity\<close>

lemma activeLiquidity_foldl_exact:
  "acc + sum_list (map liquidity (filter (\<lambda>p. isPositionActive p t) ps)) \<le> 2 ^ 53 \<Longrightarrow>
   foldl (\<lambda>activeLiquidity pos.
            if isPositionActive pos t then numAdd activeLiquidity (liquidity pos)
            else activeLiquidity) acc ps
   = acc + sum_list (map liquidity (filter (\<lambda>p. isPositionActive p t) ps))"
proof (induction ps arbitrary: acc)
  case Nil
  show ?case by simp
next
  case (Cons p ps)
  show ?case
  proof (cases "isPositionActive p t")
    case True
    from Cons.prems True have le: "acc + liquidity p \<le> 2 ^ 53" by simp
    have step: "numAdd acc (liquidity p) = acc + liquidity p"
      by (simp add: numAdd_def toNumber_exact [OF le])
    from Cons.prems True
    have "(acc + liquidity p)
            + sum_list (map liquidity (filter (\<lambda>p. isPositionActive p t) ps)) \<le> 2 ^ 53"
      by (simp add: add.assoc)
    from Cons.IH [OF this] True step show ?thesis by (simp add: add.assoc)
  next
    case False
    with Cons show ?thesis by simp
  qed
qed

lemma activeLiquidityOf_exact:
  "sum_list (map liquidity (filter (\<lambda>p. isPositionActive p t) ps)) \<le> 2 ^ 53 \<Longrightarrow>
   activeLiquidityOf ps t = sum_list (map liquidity (filter (\<lambda>p. isPositionActive p t) ps))"
  unfolding activeLiquidityOf_def using activeLiquidity_foldl_exact [of 0 t ps] by simp

lemma cached_liquidity_exact:
  "sum_list (map raw_liquidity
      (filter (\<lambda>r. matchesTargetPool (toPosition r) \<and> isPositionActive (toPosition r) t) raws))
     \<le> 2 ^ 53 \<Longrightarrow>
   map liquidity (filter (\<lambda>p. isPositionActive p t) (filterTargetPool (map toPosition raws)))
   = map raw_liquidity
      (filter (\<lambda>r. matchesTargetPool (toPosition r) \<and> isPositionActive (toPosition r) t) raws)"
proof (induction raws)
  case Nil
  show ?case by (simp add: filterTargetPool_def)
next
  case (Cons r raws)
  show ?case
  proof (cases "matchesTargetPool (toPosition r) \<and> isPositionActive (toPosition r) t")
    case True
    with Cons.prems have le: "raw_liquidity r \<le> 2 ^ 53"
      and rest: "sum_list (map raw_liquidity
        (filter (\<lambda>r. matchesTargetPool (toPosition r) \<and> isPositionActive (toPosition r) t) raws))
          \<le> 2 ^ 53"
      by simp_all
    have "liquidity (toPosition r) = raw_liquidity r"
      by (simp add: toPosition_def toNumber_exact [OF le])
    with Cons.IH [OF rest] True show ?thesis by (simp add: filterTargetPool_def)
  next
    case False
    with Cons.prems have rest: "sum_list (map raw_liquidity
        (filter (\<lambda>r. matchesTargetPool (toPosition r) \<and> isPositionActive (toPosition r) t) raws))
          \<le> 2 ^ 53"
      by auto
    from Cons.IH [OF rest] False show ?thesis by (auto simp: filterTargetPool_def)
  qed
qed

lemma example_position_matches:
  "matchesTargetPool (toPosition
     \<lparr>raw_token0 = USDC_ADDRESS, raw_token1 = OTHER_TOKEN, raw_fee = 10000,
      raw_tickLower = - 100, raw_tickUpper = 100, raw_liquidity = 500\<rparr>)"
  by (simp add: matchesTargetPool_def toPosition_def FEE_def toNumber_def)

text \<open>
  C6, as the script computes it. The active liquidity of an address is the sum, in
  double arithmetic, of the \<^verbatim>\<open>Number\<close>-converted liquidity of its cached
  positions that are active at the current tick. It equals the exact integer sum of
  the on-chain liquidity of these positions whenever that sum is at most \<open>2^53\<close>.
\<close>

theorem activeLiquidity_exact_up_to_2_53:
  assumes "sum_list (map raw_liquidity
      (filter (\<lambda>r. matchesTargetPool (toPosition r) \<and> isPositionActive (toPosition r) t) raws))
     \<le> 2 ^ 53"
  shows "activeLiquidityOf (filterTargetPool (map toPosition raws)) t
         = sum_list (map raw_liquidity
             (filter (\<lambda>r. matchesTargetPool (toPosition r) \<and> isPositionActive (toPosition r) t)
                raws))"
proof -
  note eq = cached_liquidity_exact [OF assms]
  have "sum_list (map liquidity (filter (\<lambda>p. isPositionActive p t)
          (filterTargetPool (map toPosition raws)))) \<le> 2 ^ 53"
    using assms by (simp only: eq)
  from activeLiquidityOf_exact [OF this] show ?thesis by (simp only: eq)
qed

theorem activeLiquidity_exact_up_to_2_53_witness:
  "sum_list (map raw_liquidity
      (filter (\<lambda>r. matchesTargetPool (toPosition r) \<and> isPositionActive (toPosition r) 0)
         [\<lparr>raw_token0 = USDC_ADDRESS, raw_token1 = OTHER_TOKEN, raw_fee = 10000,
           raw_tickLower = - 100, raw_tickUpper = 100, raw_liquidity = 500\<rparr>]))
     \<le> 2 ^ 53
   \<and> activeLiquidityOf (filterTargetPool (map toPosition
        [\<lparr>raw_token0 = USDC_ADDRESS, raw_token1 = OTHER_TOKEN, raw_fee = 10000,
          raw_tickLower = - 100, raw_tickUpper = 100, raw_liquidity = 500\<rparr>])) 0 = 500"
proof -
  have active: "isPositionActive (toPosition
     \<lparr>raw_token0 = USDC_ADDRESS, raw_token1 = OTHER_TOKEN, raw_fee = 10000,
      raw_tickLower = - 100, raw_tickUpper = 100, raw_liquidity = 500\<rparr>) 0"
    by (simp add: isPositionActive_def toPosition_def)
  have le: "sum_list (map raw_liquidity
      (filter (\<lambda>r. matchesTargetPool (toPosition r) \<and> isPositionActive (toPosition r) 0)
         [\<lparr>raw_token0 = USDC_ADDRESS, raw_token1 = OTHER_TOKEN, raw_fee = 10000,
           raw_tickLower = - 100, raw_tickUpper = 100, raw_liquidity = 500\<rparr>]))
     \<le> 2 ^ 53"
    using example_position_matches active by simp
  from activeLiquidity_exact_up_to_2_53 [OF le] le example_position_matches active
  show ?thesis by simp
qed

text \<open>
  C6 does not extend to \<open>2^64\<close>: two active positions with liquidity \<open>2^53\<close> and
  \<open>1\<close>, both exact as doubles, have the exact sum \<open>2^53 + 1\<close>, and the loop
  computes \<open>2^53\<close>.
\<close>

theorem activeLiquidity_not_exact_counterexample:
  "isPositionActive \<lparr>token0 = USDC_ADDRESS, token1 = OTHER_TOKEN, fee = 10000,
       tickLower = - 100, tickUpper = 100, liquidity = 9007199254740992\<rparr> 0
   \<and> isPositionActive \<lparr>token0 = USDC_ADDRESS, token1 = OTHER_TOKEN, fee = 10000,
       tickLower = - 50, tickUpper = 50, liquidity = 1\<rparr> 0
   \<and> activeLiquidityOf
        [\<lparr>token0 = USDC_ADDRESS, token1 = OTHER_TOKEN, fee = 10000,
           tickLower = - 100, tickUpper = 100, liquidity = 9007199254740992\<rparr>,
         \<lparr>token0 = USDC_ADDRESS, token1 = OTHER_TOKEN, fee = 10000,
           tickLower = - 50, tickUpper = 50, liquidity = 1\<rparr>] 0
      = 9007199254740992
   \<and> (9007199254740992 :: nat) + 1 = 9007199254740993
   \<and> (9007199254740993 :: nat) < 2 ^ 64"
proof -
  have a: "numAdd 0 9007199254740992 = 9007199254740992"
    using toNumber_exact [of 9007199254740992] by (simp add: numAdd_def)
  have "9007199254740992 + Suc 0 = (9007199254740993 :: nat)" by simp
  then have b: "numAdd 9007199254740992 (Suc 0) = 9007199254740992"
    unfolding numAdd_def by (simp only: toNumber_2_53_plus_1)
  show ?thesis
    by (simp add: activeLiquidityOf_def isPositionActive_def a b)
qed

subsection \<open>The position filter\<close>

text \<open>
  C8. Filtering by token pair and fee tier is idempotent and keeps the order: the
  result is a subsequence of the input, and applied to a list that is already
  filtered the filter returns that list, entry for entry.
\<close>

theorem filterTargetPool_idempotent:
  "filterTargetPool (filterTargetPool ps) = filterTargetPool ps
   \<and> subseq (filterTargetPool ps) ps"
  by (simp add: filterTargetPool_def)

subsection \<open>The logging loop\<close>

lemma logRows_frame:
  "addresses (fst (logRows ts e tc pc addrs st)) = addresses st
   \<and> positionsByAddress (fst (logRows ts e tc pc addrs st)) = positionsByAddress st
   \<and> stderr (fst (logRows ts e tc pc addrs st)) = stderr st
   \<and> dom (rollingData (fst (logRows ts e tc pc addrs st))) = dom (rollingData st)"
proof (induction addrs arbitrary: st)
  case Nil
  show ?case by simp
next
  case (Cons addr rest)
  show ?case
  proof (cases "rollingData st addr")
    case None
    then show ?thesis by simp
  next
    case (Some vs)
    let ?row = "\<lparr>row_timestamp = ts, row_address = addr,
                  row_activeLiquidity = fst (e addr), row_percentageOfDepth = snd (e addr),
                  row_rollingAvg = rollingAvgOf (pushValue (snd (e addr)) vs),
                  row_currentTick = tc, row_currentPrice = pc\<rparr>"
    let ?st = "st\<lparr>rollingData := (rollingData st)(addr \<mapsto> pushValue (snd (e addr)) vs),
                    csv := csv st @ [?row]\<rparr>"
    have step: "logRows ts e tc pc (addr # rest) st = logRows ts e tc pc rest ?st"
      using Some by (simp add: Let_def)
    have ins: "insert addr (dom (rollingData st)) = dom (rollingData st)"
      using Some by auto
    note ih = Cons.IH [of ?st]
    from ih have "addresses (fst (logRows ts e tc pc rest ?st)) = addresses ?st" by blast
    then have a: "addresses (fst (logRows ts e tc pc rest ?st)) = addresses st" by simp
    from ih have "positionsByAddress (fst (logRows ts e tc pc rest ?st)) = positionsByAddress ?st"
      by blast
    then have b: "positionsByAddress (fst (logRows ts e tc pc rest ?st)) = positionsByAddress st"
      by simp
    from ih have "stderr (fst (logRows ts e tc pc rest ?st)) = stderr ?st" by blast
    then have c: "stderr (fst (logRows ts e tc pc rest ?st)) = stderr st" by simp
    from ih have "dom (rollingData (fst (logRows ts e tc pc rest ?st))) = dom (rollingData ?st)"
      by blast
    also have "\<dots> = insert addr (dom (rollingData st))" by simp
    also note ins
    finally have d: "dom (rollingData (fst (logRows ts e tc pc rest ?st))) = dom (rollingData st)" .
    from a b c d show ?thesis
      unfolding step by blast
  qed
qed

lemma logRows_rows:
  "\<exists>rows. csv (fst (logRows ts e tc pc addrs st)) = csv st @ rows
     \<and> (\<forall>r \<in> set rows. row_timestamp r = ts
           \<and> row_activeLiquidity r = fst (e (row_address r))
           \<and> row_percentageOfDepth r = snd (e (row_address r))
           \<and> row_currentTick r = tc \<and> row_currentPrice r = pc)
     \<and> (list_all (\<lambda>addr. rollingData st addr \<noteq> None) addrs \<longrightarrow>
           map row_address rows = addrs \<and> snd (logRows ts e tc pc addrs st) = None)"
proof (induction addrs arbitrary: st)
  case Nil
  show ?case by simp
next
  case (Cons addr rest)
  show ?case
  proof (cases "rollingData st addr")
    case None
    then show ?thesis by simp
  next
    case (Some vs)
    let ?row = "\<lparr>row_timestamp = ts, row_address = addr,
                  row_activeLiquidity = fst (e addr), row_percentageOfDepth = snd (e addr),
                  row_rollingAvg = rollingAvgOf (pushValue (snd (e addr)) vs),
                  row_currentTick = tc, row_currentPrice = pc\<rparr>"
    let ?st = "st\<lparr>rollingData := (rollingData st)(addr \<mapsto> pushValue (snd (e addr)) vs),
                    csv := csv st @ [?row]\<rparr>"
    have step: "logRows ts e tc pc (addr # rest) st = logRows ts e tc pc rest ?st"
      using Some by (simp add: Let_def)
    from Cons.IH [of ?st] obtain rows where
      rows: "csv (fst (logRows ts e tc pc rest ?st)) = csv ?st @ rows"
      and cols: "\<forall>r \<in> set rows. row_timestamp r = ts
           \<and> row_activeLiquidity r = fst (e (row_address r))
           \<and> row_percentageOfDepth r = snd (e (row_address r))
           \<and> row_currentTick r = tc \<and> row_currentPrice r = pc"
      and all: "list_all (\<lambda>a. rollingData ?st a \<noteq> None) rest \<longrightarrow>
           map row_address rows = rest \<and> snd (logRows ts e tc pc rest ?st) = None"
      by blast
    have keep: "list_all (\<lambda>a. rollingData st a \<noteq> None) rest
                  \<Longrightarrow> list_all (\<lambda>a. rollingData ?st a \<noteq> None) rest"
      by (simp add: list_all_iff)
    show ?thesis
    proof (intro exI [of _ "?row # rows"] conjI impI)
      show "csv (fst (logRows ts e tc pc (addr # rest) st)) = csv st @ ?row # rows"
        unfolding step using rows by simp
      show "\<forall>r \<in> set (?row # rows). row_timestamp r = ts
           \<and> row_activeLiquidity r = fst (e (row_address r))
           \<and> row_percentageOfDepth r = snd (e (row_address r))
           \<and> row_currentTick r = tc \<and> row_currentPrice r = pc"
        using cols by simp
    next
      assume "list_all (\<lambda>a. rollingData st a \<noteq> None) (addr # rest)"
      then have "list_all (\<lambda>a. rollingData ?st a \<noteq> None) rest"
        using keep by simp
      with all show "map row_address (?row # rows) = addr # rest"
        and "snd (logRows ts e tc pc (addr # rest) st) = None"
        unfolding step by simp_all
    qed
  qed
qed

lemma logRows_other:
  "a \<notin> set addrs \<Longrightarrow> rollingData (fst (logRows ts e tc pc addrs st)) a = rollingData st a"
  by (induction addrs arbitrary: st) (auto simp: Let_def split: option.splits)

lemma logRows_last:
  "list_all (\<lambda>addr. rollingData st addr \<noteq> None) addrs \<Longrightarrow> a \<in> set addrs \<Longrightarrow>
   \<exists>values. rollingData (fst (logRows ts e tc pc addrs st)) a = Some values
     \<and> values \<noteq> [] \<and> last values = snd (e a)"
proof (induction addrs arbitrary: st)
  case Nil
  then show ?case by simp
next
  case (Cons addr rest)
  from Cons.prems obtain vs where Some: "rollingData st addr = Some vs" by auto
  let ?row = "\<lparr>row_timestamp = ts, row_address = addr,
                row_activeLiquidity = fst (e addr), row_percentageOfDepth = snd (e addr),
                row_rollingAvg = rollingAvgOf (pushValue (snd (e addr)) vs),
                row_currentTick = tc, row_currentPrice = pc\<rparr>"
  let ?st = "st\<lparr>rollingData := (rollingData st)(addr \<mapsto> pushValue (snd (e addr)) vs),
                  csv := csv st @ [?row]\<rparr>"
  have step: "logRows ts e tc pc (addr # rest) st = logRows ts e tc pc rest ?st"
    using Some by (simp add: Let_def)
  from Cons.prems have keep: "list_all (\<lambda>a. rollingData ?st a \<noteq> None) rest"
    by (simp add: list_all_iff)
  show ?case
  proof (cases "a \<in> set rest")
    case True
    from Cons.IH [OF keep True] show ?thesis unfolding step .
  next
    case False
    with Cons.prems have a: "a = addr" by simp
    from logRows_other [OF False, of ts e tc pc ?st] a pushValue_last [of "snd (e addr)" vs]
    show ?thesis unfolding step by simp
  qed
qed

lemma logRows_bounded:
  "(\<forall>a w. rollingData st a = Some w \<longrightarrow> length w \<le> WINDOW_SIZE) \<Longrightarrow>
   rollingData (fst (logRows ts e tc pc addrs st)) a = Some w \<Longrightarrow> length w \<le> WINDOW_SIZE"
proof (induction addrs arbitrary: st)
  case Nil
  then show ?case by simp
next
  case (Cons addr rest)
  show ?case
  proof (cases "rollingData st addr")
    case None
    with Cons.prems show ?thesis by simp
  next
    case (Some vs)
    let ?row = "\<lparr>row_timestamp = ts, row_address = addr,
                  row_activeLiquidity = fst (e addr), row_percentageOfDepth = snd (e addr),
                  row_rollingAvg = rollingAvgOf (pushValue (snd (e addr)) vs),
                  row_currentTick = tc, row_currentPrice = pc\<rparr>"
    let ?st = "st\<lparr>rollingData := (rollingData st)(addr \<mapsto> pushValue (snd (e addr)) vs),
                    csv := csv st @ [?row]\<rparr>"
    have step: "logRows ts e tc pc (addr # rest) st = logRows ts e tc pc rest ?st"
      using Some by (simp add: Let_def)
    from Cons.prems(1) Some have "length vs \<le> WINDOW_SIZE" by blast
    then have "length (pushValue (snd (e addr)) vs) \<le> WINDOW_SIZE"
      by (rule pushValue_length)
    with Cons.prems(1)
    have inv: "\<forall>a w. rollingData ?st a = Some w \<longrightarrow> length w \<le> WINDOW_SIZE"
      by auto
    from Cons.prems(2) have "rollingData (fst (logRows ts e tc pc rest ?st)) a = Some w"
      unfolding step .
    with Cons.IH [OF inv] show ?thesis .
  qed
qed

lemma logRows_stderr:
  "logRows ts e tc pc addrs (st\<lparr>stderr := x\<rparr>)
   = ((fst (logRows ts e tc pc addrs st))\<lparr>stderr := x\<rparr>, snd (logRows ts e tc pc addrs st))"
proof (induction addrs arbitrary: st)
  case Nil
  show ?case by simp
next
  case (Cons addr rest)
  show ?case
  proof (cases "rollingData st addr")
    case None
    then show ?thesis by simp
  next
    case (Some vs)
    let ?row = "\<lparr>row_timestamp = ts, row_address = addr,
                  row_activeLiquidity = fst (e addr), row_percentageOfDepth = snd (e addr),
                  row_rollingAvg = rollingAvgOf (pushValue (snd (e addr)) vs),
                  row_currentTick = tc, row_currentPrice = pc\<rparr>"
    let ?st = "st\<lparr>rollingData := (rollingData st)(addr \<mapsto> pushValue (snd (e addr)) vs),
                    csv := csv st @ [?row]\<rparr>"
    have step: "logRows ts e tc pc (addr # rest) st = logRows ts e tc pc rest ?st"
      using Some by (simp add: Let_def)
    have swap: "(st\<lparr>stderr := x\<rparr>)
                  \<lparr>rollingData := (rollingData st)(addr \<mapsto> pushValue (snd (e addr)) vs),
                   csv := csv st @ [?row]\<rparr> = ?st\<lparr>stderr := x\<rparr>"
      by (cases st) simp
    have "logRows ts e tc pc (addr # rest) (st\<lparr>stderr := x\<rparr>)
            = logRows ts e tc pc rest (?st\<lparr>stderr := x\<rparr>)"
      using Some by (simp add: Let_def swap)
    also have "\<dots> = ((fst (logRows ts e tc pc rest ?st))\<lparr>stderr := x\<rparr>,
                       snd (logRows ts e tc pc rest ?st))"
      by (rule Cons.IH)
    finally show ?thesis unfolding step .
  qed
qed

subsection \<open>One cycle\<close>

lemma catchUpdateLoop_fields:
  "csv (catchUpdateLoop r) = csv (fst r)
   \<and> rollingData (catchUpdateLoop r) = rollingData (fst r)
   \<and> addresses (catchUpdateLoop r) = addresses (fst r)
   \<and> positionsByAddress (catchUpdateLoop r) = positionsByAddress (fst r)"
  by (cases r) (simp add: catchUpdateLoop_def split: option.splits)

lemma updateLoop_zero:
  assumes "slot0 poolContract = Inr s0" and "pool_liquidity poolContract = Inr liq"
    and "toNumber liq = 0"
  shows "updateLoop poolContract timestamp st
           = catchUpdateLoop (logRows timestamp (\<lambda>addr. (0, 0)) (Some (tick s0))
               (Some (roundDouble (roundDouble ((real (toNumber (sqrtPriceX96 s0))) ^ 2) / 2 ^ 192))) (addresses st) st)"
  using assms by (simp add: updateLoop_def Let_def)

lemma updateLoop_share:
  assumes "slot0 poolContract = Inr s0" and "pool_liquidity poolContract = Inr liq"
    and "toNumber liq \<noteq> 0"
  shows "updateLoop poolContract timestamp st
           = catchUpdateLoop (logRows timestamp
               (\<lambda>addr. (activeLiquidityByAddress st (tick s0) addr,
                         percentageOf (activeLiquidityByAddress st (tick s0) addr)
                           (toNumber liq)))
               (Some (tick s0))
               (Some (roundDouble (roundDouble ((real (toNumber (sqrtPriceX96 s0))) ^ 2) / 2 ^ 192))) (addresses st) st)"
  using assms by (simp add: updateLoop_def Let_def)

lemma updateLoop_sampled:
  assumes "slot0 poolContract = Inr s0" and "pool_liquidity poolContract = Inr liq"
  shows "\<exists>e tc pc. updateLoop poolContract timestamp st
           = catchUpdateLoop (logRows timestamp e tc pc (addresses st) st)"
proof (cases "toNumber liq = 0")
  case True
  from updateLoop_zero [OF assms True] show ?thesis by blast
next
  case False
  from updateLoop_share [OF assms False] show ?thesis by blast
qed

lemma map_all_equal: "\<forall>x \<in> set xs. f x = c \<Longrightarrow> map f xs = replicate (length xs) c"
  by (induction xs) simp_all

lemma newRows_append: "csv st' = csv st @ rows \<Longrightarrow> newRows st st' = rows"
  by (simp add: newRows_def)

lemma exampleState_loaded: "storesLoaded exampleState"
  by (simp add: storesLoaded_def exampleState_def)

lemma toNumber_1000: "toNumber 1000 = 1000"
  by (simp add: toNumber_def)

lemma example_cycle_zero:
  "newRows exampleState (updateLoop (examplePool 0) ''t1'' exampleState)
   = [\<lparr>row_timestamp = ''t1'', row_address = ''0xA1'', row_activeLiquidity = 0,
       row_percentageOfDepth = 0, row_rollingAvg = 25,
       row_currentTick = Some 0,
       row_currentPrice = Some (roundDouble (roundDouble ((real (toNumber (2 ^ 96))) ^ 2) / 2 ^ 192))\<rparr>,
      \<lparr>row_timestamp = ''t1'', row_address = ''0xB2'', row_activeLiquidity = 0,
       row_percentageOfDepth = 0, row_rollingAvg = 0,
       row_currentTick = Some 0,
       row_currentPrice = Some (roundDouble (roundDouble ((real (toNumber (2 ^ 96))) ^ 2) / 2 ^ 192))\<rparr>]
   \<and> rollingData (updateLoop (examplePool 0) ''t1'' exampleState) ''0xA1'' = Some [50, 0]
   \<and> rollingData (updateLoop (examplePool 0) ''t1'' exampleState) ''0xB2'' = Some [0]"
  by (simp add: updateLoop_def examplePool_def exampleState_def catchUpdateLoop_def
        newRows_def pushValue_def rollingAvgOf_def WINDOW_SIZE_def Let_def
        roundDouble_examples)

lemma numAdd_0_500: "numAdd 0 500 = 500"
  by (simp add: numAdd_def toNumber_def)

lemma example_active_liquidity:
  "activeLiquidityByAddress exampleState 0 ''0xA1'' = 500
   \<and> activeLiquidityByAddress exampleState 0 ''0xB2'' = 0"
  by (simp add: activeLiquidityByAddress_def positionsOrEmpty_def exampleState_def
        activeLiquidityOf_def examplePosition_def isPositionActive_def numAdd_0_500)

lemma example_cycle_share:
  "newRows exampleState (updateLoop (examplePool 1000) ''t1'' exampleState)
   = [\<lparr>row_timestamp = ''t1'', row_address = ''0xA1'', row_activeLiquidity = 500,
       row_percentageOfDepth = 50, row_rollingAvg = 50,
       row_currentTick = Some 0,
       row_currentPrice = Some (roundDouble (roundDouble ((real (toNumber (2 ^ 96))) ^ 2) / 2 ^ 192))\<rparr>,
      \<lparr>row_timestamp = ''t1'', row_address = ''0xB2'', row_activeLiquidity = 0,
       row_percentageOfDepth = 0, row_rollingAvg = 0,
       row_currentTick = Some 0,
       row_currentPrice = Some (roundDouble (roundDouble ((real (toNumber (2 ^ 96))) ^ 2) / 2 ^ 192))\<rparr>]"
  by (simp add: updateLoop_def examplePool_def catchUpdateLoop_def toNumber_1000 Let_def
        exampleState_def newRows_def pushValue_def rollingAvgOf_def WINDOW_SIZE_def
        activeLiquidityByAddress_def positionsOrEmpty_def
        activeLiquidityOf_def examplePosition_def isPositionActive_def numAdd_0_500
        roundDouble_examples percentageOf_examples)

lemma example_cycle_nopool:
  "snd (updateLoopNoPool ''t1'' exampleState) = None
   \<and> newRows exampleState (fst (updateLoopNoPool ''t1'' exampleState))
   = [\<lparr>row_timestamp = ''t1'', row_address = ''0xA1'', row_activeLiquidity = 0,
       row_percentageOfDepth = 0, row_rollingAvg = 25,
       row_currentTick = None, row_currentPrice = None\<rparr>,
      \<lparr>row_timestamp = ''t1'', row_address = ''0xB2'', row_activeLiquidity = 0,
       row_percentageOfDepth = 0, row_rollingAvg = 0,
       row_currentTick = None, row_currentPrice = None\<rparr>]"
  by (simp add: updateLoopNoPool_def exampleState_def
        newRows_def pushValue_def rollingAvgOf_def WINDOW_SIZE_def Let_def
        roundDouble_examples)

lemma catchUpdateLoop_None: "snd r = None \<Longrightarrow> catchUpdateLoop r = fst r"
  by (cases r) (simp add: catchUpdateLoop_def)

lemma activeLiquidityByAddress_stderr:
  "activeLiquidityByAddress (st\<lparr>stderr := x\<rparr>) = activeLiquidityByAddress st"
  by (intro ext) (simp add: activeLiquidityByAddress_def positionsOrEmpty_def)

lemma updateLoop_stderr:
  "csv (updateLoop poolContract timestamp (st\<lparr>stderr := x\<rparr>))
     = csv (updateLoop poolContract timestamp st)
   \<and> rollingData (updateLoop poolContract timestamp (st\<lparr>stderr := x\<rparr>))
     = rollingData (updateLoop poolContract timestamp st)"
proof (cases "slot0 poolContract")
  case (Inl err)
  then show ?thesis by (simp add: updateLoop_def catchUpdateLoop_def)
next
  case s0: (Inr s0)
  show ?thesis
  proof (cases "pool_liquidity poolContract")
    case (Inl err)
    with s0 show ?thesis by (simp add: updateLoop_def catchUpdateLoop_def)
  next
    case (Inr liq)
    with s0 show ?thesis
      by (simp add: updateLoop_def Let_def catchUpdateLoop_fields logRows_stderr
            activeLiquidityByAddress_stderr)
  qed
qed

lemma updateLoop_rows:
  assumes "storesLoaded st"
    and "slot0 poolContract = Inr s0" and "pool_liquidity poolContract = Inr liq"
  shows "csv (updateLoop poolContract timestamp st)
           = csv st @ newRows st (updateLoop poolContract timestamp st)
         \<and> map row_address (newRows st (updateLoop poolContract timestamp st)) = addresses st
         \<and> stderr (updateLoop poolContract timestamp st) = stderr st"
proof -
  from updateLoop_sampled [OF assms(2,3)] obtain e tc pc where
    u: "updateLoop poolContract timestamp st
          = catchUpdateLoop (logRows timestamp e tc pc (addresses st) st)"
    by blast
  from assms(1) have all: "list_all (\<lambda>addr. rollingData st addr \<noteq> None) (addresses st)"
    by (simp add: storesLoaded_def)
  from logRows_rows [of timestamp e tc pc "addresses st" st] all obtain rows where
    rows: "csv (fst (logRows timestamp e tc pc (addresses st) st)) = csv st @ rows"
    and addrs: "map row_address rows = addresses st"
    and ok: "snd (logRows timestamp e tc pc (addresses st) st) = None"
    by blast
  from u ok have u': "updateLoop poolContract timestamp st
      = fst (logRows timestamp e tc pc (addresses st) st)"
    by (simp add: catchUpdateLoop_None)
  from rows have "newRows st (updateLoop poolContract timestamp st) = rows"
    unfolding u' by (rule newRows_append)
  with rows addrs logRows_frame [of timestamp e tc pc "addresses st" st]
  show ?thesis unfolding u' by simp
qed

lemma updateLoopNoPool_rows:
  assumes "storesLoaded st"
  shows "csv (fst (updateLoopNoPool timestamp st))
           = csv st @ newRows st (fst (updateLoopNoPool timestamp st))
         \<and> map row_address (newRows st (fst (updateLoopNoPool timestamp st))) = addresses st
         \<and> snd (updateLoopNoPool timestamp st) = None"
proof -
  from assms have all: "list_all (\<lambda>addr. rollingData st addr \<noteq> None) (addresses st)"
    by (simp add: storesLoaded_def)
  from logRows_rows [of timestamp "\<lambda>addr. (0, 0)" None None "addresses st" st] all
  obtain rows where
    rows: "csv (fst (updateLoopNoPool timestamp st)) = csv st @ rows"
    and addrs: "map row_address rows = addresses st"
    and ok: "snd (updateLoopNoPool timestamp st) = None"
    unfolding updateLoopNoPool_def by blast
  from rows have "newRows st (fst (updateLoopNoPool timestamp st)) = rows"
    by (rule newRows_append)
  with rows addrs ok show ?thesis by simp
qed

lemma updateLoop_zero_rows:
  assumes "slot0 poolContract = Inr s0" and "pool_liquidity poolContract = Inr 0"
  shows "\<forall>r \<in> set (newRows st (updateLoop poolContract timestamp st)).
           row_activeLiquidity r = 0 \<and> row_percentageOfDepth r = 0"
proof -
  let ?run = "logRows timestamp (\<lambda>addr. (0, 0)) (Some (tick s0))
               (Some (roundDouble (roundDouble ((real (toNumber (sqrtPriceX96 s0))) ^ 2) / 2 ^ 192))) (addresses st) st"
  have u: "updateLoop poolContract timestamp st = catchUpdateLoop ?run"
    by (rule updateLoop_zero [OF assms]) simp
  from logRows_rows [of timestamp "\<lambda>addr. (0, 0)" "Some (tick s0)"
      "Some (roundDouble (roundDouble ((real (toNumber (sqrtPriceX96 s0))) ^ 2) / 2 ^ 192))" "addresses st" st]
  obtain rows where
    rows: "csv (fst ?run) = csv st @ rows"
    and cols: "\<forall>r \<in> set rows. row_activeLiquidity r = 0 \<and> row_percentageOfDepth r = 0"
    by auto
  from rows have "csv (updateLoop poolContract timestamp st) = csv st @ rows"
    unfolding u by (simp add: catchUpdateLoop_fields)
  then have "newRows st (updateLoop poolContract timestamp st) = rows"
    by (rule newRows_append)
  with cols show ?thesis by simp
qed

lemma updateLoop_zero_windows:
  assumes "storesLoaded st"
    and "slot0 poolContract = Inr s0" and "pool_liquidity poolContract = Inr 0"
    and "addr \<in> set (addresses st)"
  shows "\<exists>values. rollingData (updateLoop poolContract timestamp st) addr = Some values
           \<and> values \<noteq> [] \<and> last values = 0"
proof -
  let ?run = "logRows timestamp (\<lambda>addr. (0, 0)) (Some (tick s0))
               (Some (roundDouble (roundDouble ((real (toNumber (sqrtPriceX96 s0))) ^ 2) / 2 ^ 192))) (addresses st) st"
  have u: "updateLoop poolContract timestamp st = catchUpdateLoop ?run"
    by (rule updateLoop_zero [OF assms(2,3)]) simp
  from assms(1) have all: "list_all (\<lambda>addr. rollingData st addr \<noteq> None) (addresses st)"
    by (simp add: storesLoaded_def)
  from logRows_last [OF all assms(4), of timestamp "\<lambda>addr. (0, 0)"]
  show ?thesis unfolding u by (simp add: catchUpdateLoop_fields)
qed

text \<open>
  C3. In a cycle whose pool reply has total liquidity zero, every tracked address gets
  a row, the percentage written to every row of the cycle is \<open>0\<close>, the value pushed
  last into every tracked address's window is \<open>0\<close>, and nothing is reported as an
  error. The first premise holds in every state of a run: \<^verbatim>\<open>loadAllPositions\<close>
  creates the store of every roster address and no cycle removes one.
\<close>

theorem zero_pool_liquidity_percentage_zero:
  assumes "storesLoaded st"
    and "slot0 poolContract = Inr s0" and "pool_liquidity poolContract = Inr 0"
  shows "map row_address (newRows st (updateLoop poolContract timestamp st)) = addresses st
    \<and> (\<forall>r \<in> set (newRows st (updateLoop poolContract timestamp st)).
          row_percentageOfDepth r = 0)
    \<and> (\<forall>addr \<in> set (addresses st).
          \<exists>values. rollingData (updateLoop poolContract timestamp st) addr = Some values
            \<and> values \<noteq> [] \<and> last values = 0)
    \<and> stderr (updateLoop poolContract timestamp st) = stderr st"
  using updateLoop_rows [OF assms] updateLoop_zero_rows [OF assms(2,3)]
    updateLoop_zero_windows [OF assms]
  by blast

theorem zero_pool_liquidity_percentage_zero_witness:
  "storesLoaded exampleState
   \<and> slot0 (examplePool 0) = Inr \<lparr>sqrtPriceX96 = 2 ^ 96, tick = 0\<rparr>
   \<and> pool_liquidity (examplePool 0) = Inr 0
   \<and> map row_address (newRows exampleState (updateLoop (examplePool 0) ''t1'' exampleState))
       = [''0xA1'', ''0xB2'']
   \<and> map row_percentageOfDepth
        (newRows exampleState (updateLoop (examplePool 0) ''t1'' exampleState)) = [0, 0]
   \<and> (\<exists>values. rollingData (updateLoop (examplePool 0) ''t1'' exampleState) ''0xA1''
          = Some values \<and> values \<noteq> [] \<and> last values = 0)
   \<and> (\<exists>values. rollingData (updateLoop (examplePool 0) ''t1'' exampleState) ''0xB2''
          = Some values \<and> values \<noteq> [] \<and> last values = 0)"
proof -
  let ?rows = "newRows exampleState (updateLoop (examplePool 0) ''t1'' exampleState)"
  have h2: "slot0 (examplePool 0) = Inr \<lparr>sqrtPriceX96 = 2 ^ 96, tick = 0\<rparr>"
    and h3: "pool_liquidity (examplePool 0) = Inr 0"
    by (simp_all add: examplePool_def)
  have roster: "addresses exampleState = [''0xA1'', ''0xB2'']"
    by (simp add: exampleState_def)
  note t = zero_pool_liquidity_percentage_zero [OF exampleState_loaded h2 h3, of "''t1''"]
  from t have addrs: "map row_address ?rows = [''0xA1'', ''0xB2'']"
    unfolding roster by blast
  then have "length ?rows = 2"
    by (metis length_map length_Cons list.size(3) numeral_2_eq_2)
  moreover from t have "\<forall>r \<in> set ?rows. row_percentageOfDepth r = 0" by blast
  ultimately have pct: "map row_percentageOfDepth ?rows = [0, 0]"
    using map_all_equal [of ?rows row_percentageOfDepth 0] by (simp add: numeral_2_eq_2)
  from t have w: "\<forall>addr \<in> set [''0xA1'', ''0xB2''].
      \<exists>values. rollingData (updateLoop (examplePool 0) ''t1'' exampleState) addr = Some values
        \<and> values \<noteq> [] \<and> last values = 0"
    unfolding roster by blast
  from w have w1: "\<exists>values. rollingData (updateLoop (examplePool 0) ''t1'' exampleState) ''0xA1''
          = Some values \<and> values \<noteq> [] \<and> last values = 0"
    by simp
  from w have w2: "\<exists>values. rollingData (updateLoop (examplePool 0) ''t1'' exampleState) ''0xB2''
          = Some values \<and> values \<noteq> [] \<and> last values = 0"
    by simp
  from exampleState_loaded h2 h3 addrs pct w1 w2 show ?thesis by blast
qed

text \<open>
  C4, for the cycles that reach a logging loop. A cycle that has the pool's reply
  (whatever the total liquidity, zero included) and a cycle without a pool each
  append exactly one row per entry of the roster, in roster order, and keep the rows
  written before. The premise holds in every state of a run (\<open>loadAllPositions_loaded\<close>,
  \<open>updateLoop_loaded\<close>, \<open>updateLoopNoPool_loaded\<close>).
\<close>

theorem one_row_per_address:
  assumes "storesLoaded st"
  shows "(slot0 poolContract = Inr s0 \<and> pool_liquidity poolContract = Inr liq \<longrightarrow>
            csv (updateLoop poolContract timestamp st)
              = csv st @ newRows st (updateLoop poolContract timestamp st)
            \<and> map row_address (newRows st (updateLoop poolContract timestamp st))
                = addresses st)
    \<and> csv (fst (updateLoopNoPool timestamp st))
        = csv st @ newRows st (fst (updateLoopNoPool timestamp st))
    \<and> map row_address (newRows st (fst (updateLoopNoPool timestamp st))) = addresses st
    \<and> snd (updateLoopNoPool timestamp st) = None"
  using updateLoop_rows [OF assms] updateLoopNoPool_rows [OF assms]
  by blast

theorem one_row_per_address_witness:
  "storesLoaded exampleState
   \<and> map row_address (newRows exampleState (updateLoop (examplePool 1000) ''t1'' exampleState))
       = [''0xA1'', ''0xB2'']
   \<and> map row_address (newRows exampleState (updateLoop (examplePool 0) ''t1'' exampleState))
       = [''0xA1'', ''0xB2'']
   \<and> map row_address (newRows exampleState (fst (updateLoopNoPool ''t1'' exampleState)))
       = [''0xA1'', ''0xB2'']"
proof -
  have p: "slot0 (examplePool liq) = Inr \<lparr>sqrtPriceX96 = 2 ^ 96, tick = 0\<rparr>
           \<and> pool_liquidity (examplePool liq) = Inr liq" for liq
    by (simp add: examplePool_def)
  have roster: "addresses exampleState = [''0xA1'', ''0xB2'']"
    by (simp add: exampleState_def)
  from one_row_per_address [OF exampleState_loaded, of "examplePool 1000" _ 1000 "''t1''"]
    one_row_per_address [OF exampleState_loaded, of "examplePool 0" _ 0 "''t1''"]
    p [of 1000] p [of 0] exampleState_loaded
  show ?thesis unfolding roster by blast
qed

text \<open>
  C4 does not extend to every cycle: in active mode a cycle whose pool fetch rejects
  appends no row, although two addresses are tracked.
\<close>

theorem one_row_per_address_counterexample:
  "addresses exampleState = [''0xA1'', ''0xB2'']
   \<and> slot0 failingPool = Inl (RpcError ''timeout'')
   \<and> newRows exampleState (updateLoop failingPool ''t1'' exampleState) = []
   \<and> map row_address (newRows exampleState (updateLoop failingPool ''t1'' exampleState))
       \<noteq> addresses exampleState"
  by (simp add: updateLoop_def catchUpdateLoop_def failingPool_def newRows_def exampleState_def)

text \<open>
  C5. When \<^verbatim>\<open>slot0()\<close> or \<^verbatim>\<open>liquidity()\<close> rejects, the cycle changes
  nothing but the error output: no row is written, no window is touched, the error
  is reported once, the scheduler sees no exception, and the following cycle writes
  the rows and windows it would have written had the failed cycle not run.
\<close>

theorem pool_fetch_failure_skips_cycle:
  assumes "slot0 poolContract = Inl err
           \<or> (slot0 poolContract = Inr s0 \<and> pool_liquidity poolContract = Inl err)"
  shows "updateLoop poolContract timestamp st
           = st\<lparr>stderr := stderr st @ [UpdateLoopError err]\<rparr>
    \<and> newRows st (updateLoop poolContract timestamp st) = []
    \<and> rollingData (updateLoop poolContract timestamp st) = rollingData st
    \<and> cycle (ActiveMode poolAddress) \<lparr>now = timestamp, pool = poolContract\<rparr> st
        = (st\<lparr>stderr := stderr st @ [UpdateLoopError err]\<rparr>, None)
    \<and> csv (updateLoop nextContract nextTimestamp (updateLoop poolContract timestamp st))
        = csv (updateLoop nextContract nextTimestamp st)
    \<and> rollingData (updateLoop nextContract nextTimestamp (updateLoop poolContract timestamp st))
        = rollingData (updateLoop nextContract nextTimestamp st)"
proof -
  from assms have u: "updateLoop poolContract timestamp st
      = st\<lparr>stderr := stderr st @ [UpdateLoopError err]\<rparr>"
    by (auto simp: updateLoop_def catchUpdateLoop_def Let_def)
  show ?thesis
    unfolding u
    by (simp add: newRows_def cycle_def u updateLoop_stderr)
qed

theorem pool_fetch_failure_skips_cycle_witness:
  "slot0 failingPool = Inl (RpcError ''timeout'')
   \<and> updateLoop failingPool ''t1'' exampleState
       = exampleState\<lparr>stderr := stderr exampleState @ [UpdateLoopError (RpcError ''timeout'')]\<rparr>
   \<and> newRows exampleState (updateLoop failingPool ''t1'' exampleState) = []
   \<and> rollingData (updateLoop failingPool ''t1'' exampleState) = rollingData exampleState
   \<and> csv (updateLoop (examplePool 1000) ''t2'' (updateLoop failingPool ''t1'' exampleState))
       = csv (updateLoop (examplePool 1000) ''t2'' exampleState)
   \<and> slot0 \<lparr>slot0 = Inr \<lparr>sqrtPriceX96 = 2 ^ 96, tick = 0\<rparr>,
             pool_liquidity = Inl (RpcError ''reverted'')\<rparr>
       = Inr \<lparr>sqrtPriceX96 = 2 ^ 96, tick = 0\<rparr>
   \<and> pool_liquidity \<lparr>slot0 = Inr \<lparr>sqrtPriceX96 = 2 ^ 96, tick = 0\<rparr>,
             pool_liquidity = Inl (RpcError ''reverted'')\<rparr>
       = Inl (RpcError ''reverted'')
   \<and> newRows exampleState
        (updateLoop \<lparr>slot0 = Inr \<lparr>sqrtPriceX96 = 2 ^ 96, tick = 0\<rparr>,
                      pool_liquidity = Inl (RpcError ''reverted'')\<rparr> ''t1'' exampleState) = []
   \<and> rollingData
        (updateLoop \<lparr>slot0 = Inr \<lparr>sqrtPriceX96 = 2 ^ 96, tick = 0\<rparr>,
                      pool_liquidity = Inl (RpcError ''reverted'')\<rparr> ''t1'' exampleState)
       = rollingData exampleState"
proof -
  have h1: "slot0 failingPool = Inl (RpcError ''timeout'')
            \<or> (slot0 failingPool = Inr s0
                \<and> pool_liquidity failingPool = Inl (RpcError ''timeout''))" for s0
    by (simp add: failingPool_def)
  let ?pc = "\<lparr>slot0 = Inr \<lparr>sqrtPriceX96 = 2 ^ 96, tick = 0\<rparr>,
              pool_liquidity = Inl (RpcError ''reverted'')\<rparr>"
  have h2: "slot0 ?pc = Inl (RpcError ''reverted'')
            \<or> (slot0 ?pc = Inr \<lparr>sqrtPriceX96 = 2 ^ 96, tick = 0\<rparr>
                \<and> pool_liquidity ?pc = Inl (RpcError ''reverted''))"
    by simp
  have f: "slot0 failingPool = Inl (RpcError ''timeout'')"
    by (simp add: failingPool_def)
  have g: "slot0 ?pc = Inr \<lparr>sqrtPriceX96 = 2 ^ 96, tick = 0\<rparr>
           \<and> pool_liquidity ?pc = Inl (RpcError ''reverted'')"
    by simp
  from pool_fetch_failure_skips_cycle [OF h1, of "''t1''" exampleState _ "examplePool 1000" "''t2''"]
    pool_fetch_failure_skips_cycle [OF h2, of "''t1''" exampleState]
    f g
  show ?thesis by blast
qed

text \<open>
  C10. In a cycle whose pool reply has total liquidity zero, every row written has
  \<open>0\<close> in its active-liquidity column, whatever the positions cached for the
  address: the sums computed at the top of the cycle are not used.
\<close>

theorem zero_branch_discards_active_liquidity:
  assumes "slot0 poolContract = Inr s0" and "pool_liquidity poolContract = Inr 0"
  shows "\<forall>r \<in> set (newRows st (updateLoop poolContract timestamp st)).
           row_activeLiquidity r = 0"
  using updateLoop_zero_rows [OF assms] by blast

theorem zero_branch_discards_active_liquidity_witness:
  "slot0 (examplePool 0) = Inr \<lparr>sqrtPriceX96 = 2 ^ 96, tick = 0\<rparr>
   \<and> pool_liquidity (examplePool 0) = Inr 0
   \<and> activeLiquidityByAddress exampleState 0 ''0xA1'' = 500
   \<and> map row_address (newRows exampleState (updateLoop (examplePool 0) ''t1'' exampleState))
       = [''0xA1'', ''0xB2'']
   \<and> map row_activeLiquidity
        (newRows exampleState (updateLoop (examplePool 0) ''t1'' exampleState)) = [0, 0]"
proof -
  let ?rows = "newRows exampleState (updateLoop (examplePool 0) ''t1'' exampleState)"
  have h2: "slot0 (examplePool 0) = Inr \<lparr>sqrtPriceX96 = 2 ^ 96, tick = 0\<rparr>"
    and h3: "pool_liquidity (examplePool 0) = Inr 0"
    by (simp_all add: examplePool_def)
  have rows: "map row_address ?rows = [''0xA1'', ''0xB2'']"
    using example_cycle_zero by simp
  then have "length ?rows = 2"
    by (metis length_map length_Cons list.size(3) numeral_2_eq_2)
  with zero_branch_discards_active_liquidity [OF h2 h3, of exampleState "''t1''"]
  have zero: "map row_activeLiquidity ?rows = [0, 0]"
    using map_all_equal [of ?rows row_activeLiquidity 0] by (simp add: numeral_2_eq_2)
  from h2 h3 example_active_liquidity rows zero show ?thesis by blast
qed

subsection \<open>Fetching positions\<close>

lemma rejected_Nil: "rejected rs = [] \<Longrightarrow> rs = map Inr (fulfilled rs)"
  by (induction rs rule: rejected.induct) simp_all

lemma rejected_Cons: "\<exists>r \<in> set rs. isl r \<Longrightarrow> rejected rs \<noteq> []"
  by (induction rs rule: rejected.induct) auto

lemma promiseAll_Inr: "promiseAll first rs = Inr xs \<Longrightarrow> rs = map Inr xs"
  by (auto simp: promiseAll_def Let_def rejected_Nil split: if_splits)

lemma promiseAll_Inl: "\<exists>r \<in> set rs. isl r \<Longrightarrow> isl (promiseAll first rs)"
  using rejected_Cons [of rs] by (simp add: promiseAll_def Let_def)

lemma fetchPositionsTry_balance_fails:
  "balanceOf src addr = Inl err \<Longrightarrow> fetchPositionsTry src addr = Inl err"
  by (simp add: fetchPositionsTry_def)

lemma fetchPositionsTry_call_fails:
  assumes bal: "balanceOf src addr = Inr balance"
    and i: "i < toNumber balance"
    and fail: "isl (tokenOfOwnerByIndex src addr i)
               \<or> (\<exists>tokenId. tokenOfOwnerByIndex src addr i = Inr tokenId
                     \<and> isl (positions src tokenId))"
  shows "isl (fetchPositionsTry src addr)"
proof (cases "2 ^ 32 \<le> toNumber balance")
  case True
  with bal i show ?thesis by (simp add: fetchPositionsTry_def Let_def)
next
  case False
  let ?calls = "map (\<lambda>i. tokenOfOwnerByIndex src addr i) [0..<toNumber balance]"
  show ?thesis
  proof (cases "promiseAll (settles src) ?calls")
    case (Inl e)
    with bal i False show ?thesis by (simp add: fetchPositionsTry_def Let_def)
  next
    case (Inr tokenIds)
    then have calls: "?calls = map Inr tokenIds" by (rule promiseAll_Inr)
    then have len: "length tokenIds = toNumber balance"
      by (metis length_map length_upt minus_nat.diff_0)
    from calls i have "?calls ! i = Inr (tokenIds ! i)"
      using len by simp
    with i have ok: "tokenOfOwnerByIndex src addr i = Inr (tokenIds ! i)" by simp
    with fail have "isl (positions src (tokenIds ! i))" by auto
    moreover from i len have "tokenIds ! i \<in> set tokenIds" by simp
    ultimately have "\<exists>r \<in> set (map (\<lambda>id. positions src id) tokenIds). isl r" by auto
    then have "isl (promiseAll (settles src) (map (\<lambda>id. positions src id) tokenIds))"
      by (rule promiseAll_Inl)
    with bal i False Inr show ?thesis
      by (auto simp: fetchPositionsTry_def Let_def split: sum.splits)
  qed
qed

text \<open>
  C7. \<^verbatim>\<open>fetchPositionsForAddress\<close> always returns an array. When
  \<^verbatim>\<open>balanceOf\<close> rejects, when one of the \<^verbatim>\<open>tokenOfOwnerByIndex\<close> or
  \<^verbatim>\<open>positions\<close> calls it makes rejects, or more generally when anything in its
  \<^verbatim>\<open>try\<close> block throws, it returns the empty array and reports exactly one
  error message; when the balance is zero it returns the empty array and reports
  nothing.
\<close>

theorem fetchPositions_contains_failure:
  "(balanceOf src addr = Inl err \<longrightarrow>
      fetchPositionsForAddress src addr = ([], [FetchPositionsError addr err]))
   \<and> (balanceOf src addr = Inr balance \<and> i < toNumber balance
        \<and> (isl (tokenOfOwnerByIndex src addr i)
            \<or> (\<exists>tokenId. tokenOfOwnerByIndex src addr i = Inr tokenId
                  \<and> isl (positions src tokenId))) \<longrightarrow>
      (\<exists>e. fetchPositionsForAddress src addr = ([], [FetchPositionsError addr e])))
   \<and> (fetchPositionsTry src addr = Inl err \<longrightarrow>
      fetchPositionsForAddress src addr = ([], [FetchPositionsError addr err]))
   \<and> (balanceOf src addr = Inr 0 \<longrightarrow> fetchPositionsForAddress src addr = ([], []))"
proof (intro conjI impI)
  assume "balanceOf src addr = Inl err"
  then show "fetchPositionsForAddress src addr = ([], [FetchPositionsError addr err])"
    by (simp add: fetchPositionsForAddress_def fetchPositionsTry_def)
next
  assume "balanceOf src addr = Inr balance \<and> i < toNumber balance
        \<and> (isl (tokenOfOwnerByIndex src addr i)
            \<or> (\<exists>tokenId. tokenOfOwnerByIndex src addr i = Inr tokenId
                  \<and> isl (positions src tokenId)))"
  then have "isl (fetchPositionsTry src addr)"
    using fetchPositionsTry_call_fails [of src addr balance i] by blast
  then obtain e where "fetchPositionsTry src addr = Inl e"
    by (cases "fetchPositionsTry src addr") auto
  then show "\<exists>e. fetchPositionsForAddress src addr = ([], [FetchPositionsError addr e])"
    by (simp add: fetchPositionsForAddress_def)
next
  assume "fetchPositionsTry src addr = Inl err"
  then show "fetchPositionsForAddress src addr = ([], [FetchPositionsError addr err])"
    by (simp add: fetchPositionsForAddress_def)
next
  assume "balanceOf src addr = Inr 0"
  then show "fetchPositionsForAddress src addr = ([], [])"
    by (simp add: fetchPositionsForAddress_def fetchPositionsTry_def)
qed

theorem fetchPositions_contains_failure_witness:
  "balanceOf (exampleSource (Inl (RpcError ''timeout'')) (Inl (RpcError ''reverted''))) ''0xA1''
     = Inl (RpcError ''timeout'')
   \<and> fetchPositionsForAddress
        (exampleSource (Inl (RpcError ''timeout'')) (Inl (RpcError ''reverted''))) ''0xA1''
       = ([], [FetchPositionsError ''0xA1'' (RpcError ''timeout'')])
   \<and> balanceOf (exampleSource (Inr 2) (Inl (RpcError ''reverted''))) ''0xA1'' = Inr 2
   \<and> (1 :: nat) < toNumber 2
   \<and> tokenOfOwnerByIndex (exampleSource (Inr 2) (Inl (RpcError ''reverted''))) ''0xA1'' 1 = Inr 8
   \<and> isl (positions (exampleSource (Inr 2) (Inl (RpcError ''reverted''))) 8)
   \<and> (\<exists>e. fetchPositionsForAddress (exampleSource (Inr 2) (Inl (RpcError ''reverted''))) ''0xA1''
             = ([], [FetchPositionsError ''0xA1'' e]))
   \<and> balanceOf (exampleSource (Inr 0) (Inl (RpcError ''reverted''))) ''0xA1'' = Inr 0
   \<and> fetchPositionsForAddress (exampleSource (Inr 0) (Inl (RpcError ''reverted''))) ''0xA1''
       = ([], [])"
proof -
  let ?down = "exampleSource (Inl (RpcError ''timeout'')) (Inl (RpcError ''reverted''))"
  let ?half = "exampleSource (Inr 2) (Inl (RpcError ''reverted''))"
  let ?none = "exampleSource (Inr 0) (Inl (RpcError ''reverted''))"
  have a: "balanceOf ?down ''0xA1'' = Inl (RpcError ''timeout'')"
    by (simp add: exampleSource_def)
  have b: "balanceOf ?half ''0xA1'' = Inr 2 \<and> (1 :: nat) < toNumber 2
           \<and> (isl (tokenOfOwnerByIndex ?half ''0xA1'' 1)
               \<or> (\<exists>tokenId. tokenOfOwnerByIndex ?half ''0xA1'' 1 = Inr tokenId
                     \<and> isl (positions ?half tokenId)))"
    by (simp add: exampleSource_def toNumber_def)
  have b': "tokenOfOwnerByIndex ?half ''0xA1'' 1 = Inr 8 \<and> isl (positions ?half 8)"
    by (simp add: exampleSource_def)
  have c: "balanceOf ?none ''0xA1'' = Inr 0"
    by (simp add: exampleSource_def)
  note thm1 = fetchPositions_contains_failure [of ?down "''0xA1''" "RpcError ''timeout''"]
  note thm2 = fetchPositions_contains_failure [of ?half "''0xA1''" _ 2 1]
  note thm3 = fetchPositions_contains_failure [of ?none "''0xA1''"]
  from thm1 a have r1: "fetchPositionsForAddress ?down ''0xA1''
       = ([], [FetchPositionsError ''0xA1'' (RpcError ''timeout'')])" by blast
  from thm2 b have r2: "\<exists>e. fetchPositionsForAddress ?half ''0xA1''
       = ([], [FetchPositionsError ''0xA1'' e])" by blast
  from thm3 c have r3: "fetchPositionsForAddress ?none ''0xA1'' = ([], [])" by blast
  from a b b' c r1 r2 r3 show ?thesis by blast
qed

subsection \<open>Startup and the run\<close>

lemma storesLoaded_iff: "storesLoaded st \<longleftrightarrow> set (addresses st) \<subseteq> dom (rollingData st)"
  by (auto simp: storesLoaded_def list_all_iff)

lemma loadPositionsLoop_frame:
  "addresses (loadPositionsLoop src addrs st) = addresses st
   \<and> csv (loadPositionsLoop src addrs st) = csv st
   \<and> dom (rollingData (loadPositionsLoop src addrs st)) = dom (rollingData st) \<union> set addrs"
proof (induction addrs arbitrary: st)
  case Nil
  show ?case by simp
next
  case (Cons addr rest)
  obtain pos errs where f: "fetchPositionsForAddress src addr = (pos, errs)"
    by (cases "fetchPositionsForAddress src addr")
  let ?st = "st\<lparr>positionsByAddress := (positionsByAddress st)(addr \<mapsto> pos),
                  rollingData := (rollingData st)(addr \<mapsto> []),
                  stderr := stderr st @ errs\<rparr>"
  have step: "loadPositionsLoop src (addr # rest) st = loadPositionsLoop src rest ?st"
    using f by simp
  from Cons.IH [of ?st] show ?case unfolding step by auto
qed

lemma loadPositionsLoop_bounded:
  "(\<forall>a w. rollingData st a = Some w \<longrightarrow> length w \<le> WINDOW_SIZE) \<Longrightarrow>
   rollingData (loadPositionsLoop src addrs st) a = Some w \<Longrightarrow> length w \<le> WINDOW_SIZE"
proof (induction addrs arbitrary: st)
  case Nil
  then show ?case by simp
next
  case (Cons addr rest)
  obtain pos errs where f: "fetchPositionsForAddress src addr = (pos, errs)"
    by (cases "fetchPositionsForAddress src addr")
  let ?st = "st\<lparr>positionsByAddress := (positionsByAddress st)(addr \<mapsto> pos),
                  rollingData := (rollingData st)(addr \<mapsto> []),
                  stderr := stderr st @ errs\<rparr>"
  have step: "loadPositionsLoop src (addr # rest) st = loadPositionsLoop src rest ?st"
    using f by simp
  from Cons.prems(1)
  have inv: "\<forall>a w. rollingData ?st a = Some w \<longrightarrow> length w \<le> WINDOW_SIZE"
    by auto
  from Cons.prems(2) have "rollingData (loadPositionsLoop src rest ?st) a = Some w"
    unfolding step .
  with Cons.IH [OF inv] show ?case .
qed

lemma loadAllPositions_loaded:
  "storesLoaded (loadAllPositions src (initialState addrs))
   \<and> csv (loadAllPositions src (initialState addrs)) = []
   \<and> addresses (loadAllPositions src (initialState addrs)) = addrs"
  using loadPositionsLoop_frame [of src addrs "initialState addrs"]
  by (simp add: storesLoaded_iff loadAllPositions_def initialState_def)

lemma updateLoopNoPool_loaded:
  "storesLoaded st \<Longrightarrow> storesLoaded (fst (updateLoopNoPool timestamp st))"
  using logRows_frame [of timestamp "\<lambda>addr. (0, 0)" None None "addresses st" st]
  by (simp add: storesLoaded_iff updateLoopNoPool_def)

lemma updateLoop_frame:
  "addresses (updateLoop poolContract timestamp st) = addresses st
   \<and> dom (rollingData (updateLoop poolContract timestamp st)) = dom (rollingData st)"
proof (cases "slot0 poolContract")
  case (Inl err)
  then show ?thesis by (simp add: updateLoop_def catchUpdateLoop_def)
next
  case s0: (Inr s0)
  show ?thesis
  proof (cases "pool_liquidity poolContract")
    case (Inl err)
    with s0 show ?thesis by (simp add: updateLoop_def catchUpdateLoop_def)
  next
    case (Inr liq)
    from updateLoop_sampled [OF s0 Inr, of timestamp st] obtain e tc pc where
      "updateLoop poolContract timestamp st
         = catchUpdateLoop (logRows timestamp e tc pc (addresses st) st)"
      by blast
    with logRows_frame [of timestamp e tc pc "addresses st" st] show ?thesis
      by (simp add: catchUpdateLoop_fields)
  qed
qed

lemma updateLoop_loaded:
  "storesLoaded st \<Longrightarrow> storesLoaded (updateLoop poolContract timestamp st)"
  using updateLoop_frame [of poolContract timestamp st] by (simp add: storesLoaded_iff)

lemma updateLoop_bounded:
  assumes "\<forall>a w. rollingData st a = Some w \<longrightarrow> length w \<le> WINDOW_SIZE"
    and "rollingData (updateLoop poolContract timestamp st) a = Some w"
  shows "length w \<le> WINDOW_SIZE"
proof (cases "slot0 poolContract")
  case (Inl err)
  with assms show ?thesis by (simp add: updateLoop_def catchUpdateLoop_def)
next
  case s0: (Inr s0)
  show ?thesis
  proof (cases "pool_liquidity poolContract")
    case (Inl err)
    with s0 assms show ?thesis by (simp add: updateLoop_def catchUpdateLoop_def)
  next
    case (Inr liq)
    from updateLoop_sampled [OF s0 Inr, of timestamp st] obtain e tc pc where
      "updateLoop poolContract timestamp st
         = catchUpdateLoop (logRows timestamp e tc pc (addresses st) st)"
      by blast
    with assms(2) have "rollingData (fst (logRows timestamp e tc pc (addresses st) st)) a = Some w"
      by (simp add: catchUpdateLoop_fields)
    with logRows_bounded [OF assms(1)] show ?thesis .
  qed
qed

lemma cycle_bounded:
  assumes "\<forall>a w. rollingData st a = Some w \<longrightarrow> length w \<le> WINDOW_SIZE"
    and "rollingData (fst (cycle m inp st)) a = Some w"
  shows "length w \<le> WINDOW_SIZE"
proof (cases m)
  case (ActiveMode poolAddress)
  with assms(2) have "rollingData (updateLoop (pool inp) (now inp) st) a = Some w"
    by (simp add: cycle_def)
  with updateLoop_bounded [OF assms(1)] show ?thesis .
next
  case DegradedMode
  with assms(2) have "rollingData (fst (logRows (now inp) (\<lambda>addr. (0, 0)) None None
      (addresses st) st)) a = Some w"
    by (simp add: cycle_def updateLoopNoPool_def)
  with logRows_bounded [OF assms(1)] show ?thesis .
qed

lemma runCycles_bounded:
  "(\<forall>a w. rollingData st a = Some w \<longrightarrow> length w \<le> WINDOW_SIZE) \<Longrightarrow>
   rollingData (fst (runCycles m inps st)) a = Some w \<Longrightarrow> length w \<le> WINDOW_SIZE"
proof (induction inps arbitrary: st)
  case Nil
  then show ?case by simp
next
  case (Cons inp inps)
  obtain st' r where c: "cycle m inp st = (st', r)" by (cases "cycle m inp st")
  from cycle_bounded [OF Cons.prems(1), of m inp] c
  have inv: "\<forall>a w. rollingData st' a = Some w \<longrightarrow> length w \<le> WINDOW_SIZE"
    by simp
  show ?case
  proof (cases r)
    case None
    with c Cons.prems(2) have "rollingData (fst (runCycles m inps st')) a = Some w" by simp
    with Cons.IH [OF inv] show ?thesis .
  next
    case (Some err)
    with c Cons.prems(2) have "rollingData st' a = Some w" by simp
    with inv show ?thesis by blast
  qed
qed

text \<open>
  Whatever the position manager, the library, the factory and the pool reply, and
  however many cycles run, no window of the program ever holds more than
  \<open>WINDOW_SIZE\<close> values.
\<close>

lemma main_windows_bounded:
  assumes "rollingData (fst (main src ethers getPool addrs inps)) a = Some w"
  shows "length w \<le> WINDOW_SIZE"
proof -
  let ?st = "loadAllPositions src (initialState addrs)"
  have init: "\<forall>a w. rollingData (initialState addrs) a = Some w \<longrightarrow> length w \<le> WINDOW_SIZE"
    by (simp add: initialState_def)
  have inv: "\<forall>a w. rollingData ?st a = Some w \<longrightarrow> length w \<le> WINDOW_SIZE"
    unfolding loadAllPositions_def using loadPositionsLoop_bounded [OF init] by blast
  then have inv': "\<forall>a w. rollingData (?st\<lparr>stderr := x\<rparr>) a = Some w \<longrightarrow> length w \<le> WINDOW_SIZE"
    for x by simp
  obtain st m queries where s: "startup src ethers getPool addrs = (st, m, queries)"
    by (cases "startup src ethers getPool addrs")
  then have "st = ?st \<or> (\<exists>x. st = ?st\<lparr>stderr := x\<rparr>)"
    by (auto simp: startup_def Let_def split: prod.splits sum.splits option.splits)
  with inv inv' have "\<forall>a w. rollingData st a = Some w \<longrightarrow> length w \<le> WINDOW_SIZE"
    by auto
  from runCycles_bounded [OF this, of m inps a w] assms s show ?thesis
    by (simp add: main_def)
qed

lemma runCycles_degraded:
  "storesLoaded st \<Longrightarrow>
   (\<forall>r \<in> set (csv st). row_currentTick r = None \<and> row_currentPrice r = None) \<Longrightarrow>
   snd (runCycles DegradedMode inps st) = None
   \<and> length (csv (fst (runCycles DegradedMode inps st)))
       = length (csv st) + length inps * length (addresses st)
   \<and> (\<forall>r \<in> set (csv (fst (runCycles DegradedMode inps st))).
         row_currentTick r = None \<and> row_currentPrice r = None)"
proof (induction inps arbitrary: st)
  case Nil
  then show ?case by simp
next
  case (Cons inp inps)
  let ?st = "fst (updateLoopNoPool (now inp) st)"
  from updateLoopNoPool_rows [OF Cons.prems(1), of "now inp"]
  have ok: "snd (updateLoopNoPool (now inp) st) = None"
    and csv: "csv ?st = csv st @ newRows st ?st"
    and addrs: "map row_address (newRows st ?st) = addresses st"
    by blast+
  from ok have step: "runCycles DegradedMode (inp # inps) st = runCycles DegradedMode inps ?st"
    by (cases "updateLoopNoPool (now inp) st") (simp add: cycle_def)
  from logRows_rows [of "now inp" "\<lambda>addr. (0, 0)" None None "addresses st" st]
  obtain rows where rows: "csv ?st = csv st @ rows"
    and cols: "\<forall>r \<in> set rows. row_currentTick r = None \<and> row_currentPrice r = None"
    unfolding updateLoopNoPool_def by blast
  from rows cols Cons.prems(2)
  have na: "\<forall>r \<in> set (csv ?st). row_currentTick r = None \<and> row_currentPrice r = None"
    by auto
  from addrs have "length (newRows st ?st) = length (addresses st)"
    by (metis length_map)
  with csv have len: "length (csv ?st) = length (csv st) + length (addresses st)" by simp
  have same: "addresses ?st = addresses st"
    using logRows_frame [of "now inp" "\<lambda>addr. (0, 0)" None None "addresses st" st]
    by (simp add: updateLoopNoPool_def)
  from Cons.IH [OF updateLoopNoPool_loaded [OF Cons.prems(1)] na] len same
  show ?case unfolding step by simp
qed

text \<open>
  C9. When the roster's cached position lists are all empty after loading,
  \<^verbatim>\<open>getTargetPoolAddress\<close> returns \<^verbatim>\<open>null\<close> and sends no query to the
  factory, whatever the factory would answer; \<^verbatim>\<open>main\<close> then schedules
  \<^verbatim>\<open>updateLoopNoPool\<close> for every cycle of the run, so every row of the run has
  \<^verbatim>\<open>N/A\<close> in its tick and price columns.
\<close>

theorem no_positions_skips_pool_lookup:
  assumes "totalPositions (loadAllPositions src (initialState addrs)) = 0"
  shows "getTargetPoolAddress ethers getPool (loadAllPositions src (initialState addrs))
           = (Inr None, [])
    \<and> startup src ethers getPool addrs
        = (loadAllPositions src (initialState addrs), DegradedMode, [])
    \<and> main src ethers getPool addrs inps
        = runCycles DegradedMode inps (loadAllPositions src (initialState addrs))
    \<and> snd (main src ethers getPool addrs inps) = None
    \<and> length (csv (fst (main src ethers getPool addrs inps))) = length inps * length addrs
    \<and> (\<forall>r \<in> set (csv (fst (main src ethers getPool addrs inps))).
          row_currentTick r = None \<and> row_currentPrice r = None)"
proof -
  let ?st = "loadAllPositions src (initialState addrs)"
  from assms have g: "getTargetPoolAddress ethers getPool ?st = (Inr None, [])"
    by (simp add: getTargetPoolAddress_def)
  then have s: "startup src ethers getPool addrs = (?st, DegradedMode, [])"
    by (simp add: startup_def Let_def)
  then have m: "main src ethers getPool addrs inps = runCycles DegradedMode inps ?st"
    by (simp add: main_def)
  from loadAllPositions_loaded [of src addrs]
  have loaded: "storesLoaded ?st" and empty: "csv ?st = []" and roster: "addresses ?st = addrs"
    by blast+
  from empty have "\<forall>r \<in> set (csv ?st). row_currentTick r = None \<and> row_currentPrice r = None"
    by simp
  from runCycles_degraded [OF loaded this, of inps] g s m empty roster
  show ?thesis by simp
qed

lemma example_no_positions:
  "totalPositions (loadAllPositions (exampleSource (Inr 0) (Inl (RpcError ''reverted'')))
      (initialState [''0xA1'', ''0xB2''])) = 0"
  by (simp add: totalPositions_def loadAllPositions_def initialState_def positionsOrEmpty_def
        fetchPositionsForAddress_def fetchPositionsTry_def exampleSource_def)

theorem no_positions_skips_pool_lookup_witness:
  "totalPositions (loadAllPositions (exampleSource (Inr 0) (Inl (RpcError ''reverted'')))
      (initialState [''0xA1'', ''0xB2''])) = 0
   \<and> exampleFactory OTHER_TOKEN USDC_ADDRESS FEE = Inr ''0xP001''
   \<and> startup (exampleSource (Inr 0) (Inl (RpcError ''reverted''))) exampleEthers exampleFactory
        [''0xA1'', ''0xB2'']
       = (loadAllPositions (exampleSource (Inr 0) (Inl (RpcError ''reverted'')))
            (initialState [''0xA1'', ''0xB2'']), DegradedMode, [])
   \<and> map row_currentTick (csv (fst (main (exampleSource (Inr 0) (Inl (RpcError ''reverted'')))
        exampleEthers exampleFactory [''0xA1'', ''0xB2'']
        [\<lparr>now = ''t1'', pool = examplePool 1000\<rparr>, \<lparr>now = ''t2'', pool = examplePool 1000\<rparr>])))
       = [None, None, None, None]
   \<and> map row_currentPrice (csv (fst (main (exampleSource (Inr 0) (Inl (RpcError ''reverted'')))
        exampleEthers exampleFactory [''0xA1'', ''0xB2'']
        [\<lparr>now = ''t1'', pool = examplePool 1000\<rparr>, \<lparr>now = ''t2'', pool = examplePool 1000\<rparr>])))
       = [None, None, None, None]"
proof -
  let ?inps = "[\<lparr>now = ''t1'', pool = examplePool 1000\<rparr>, \<lparr>now = ''t2'', pool = examplePool 1000\<rparr>]"
  let ?rows = "csv (fst (main (exampleSource (Inr 0) (Inl (RpcError ''reverted'')))
        exampleEthers exampleFactory [''0xA1'', ''0xB2''] ?inps))"
  have pool: "exampleFactory OTHER_TOKEN USDC_ADDRESS FEE = Inr ''0xP001''"
    by (simp add: exampleFactory_def)
  note t = no_positions_skips_pool_lookup [OF example_no_positions,
      of exampleEthers exampleFactory ?inps]
  from t have s: "startup (exampleSource (Inr 0) (Inl (RpcError ''reverted''))) exampleEthers
        exampleFactory [''0xA1'', ''0xB2'']
       = (loadAllPositions (exampleSource (Inr 0) (Inl (RpcError ''reverted'')))
            (initialState [''0xA1'', ''0xB2'']), DegradedMode, [])"
    by blast
  from t have "length ?rows = length ?inps * length [''0xA1'', ''0xB2'']"
    by blast
  then have l: "length ?rows = 4"
    by simp
  from t have n: "\<forall>r \<in> set ?rows. row_currentTick r = None \<and> row_currentPrice r = None"
    by blast
  then have "\<forall>r \<in> set ?rows. row_currentTick r = None" by blast
  from map_all_equal [OF this] l have ticks: "map row_currentTick ?rows = [None, None, None, None]"
    by (simp add: numeral_eq_Suc)
  from n have "\<forall>r \<in> set ?rows. row_currentPrice r = None" by blast
  from map_all_equal [OF this] l have prices: "map row_currentPrice ?rows = [None, None, None, None]"
    by (simp add: numeral_eq_Suc)
  from example_no_positions pool s ticks prices show ?thesis by blast
qed

subsection \<open>The rolling average in two cycles\<close>

lemma rollingAvgOf_examples:
  "rollingAvgOf [percentageOf 2 18] = 3127499741229511 / 2 ^ 48"
  "rollingAvgOf [percentageOf 2 18, percentageOf 4 18] = 2345624805922133 / 2 ^ 47"
  by (simp_all add: rollingAvgOf_def percentageOf_examples roundDouble_eval)

lemma numAdd_small: "numAdd 0 2 = 2" "numAdd 2 2 = 4" "toNumber 18 = 18"
  by (simp_all add: numAdd_def toNumber_def)

lemma twoRange_active:
  "activeLiquidityByAddress twoRangeState (- 50) ''0xA1'' = 2
   \<and> activeLiquidityByAddress twoRangeState 50 ''0xA1'' = 4"
  by (simp add: activeLiquidityByAddress_def positionsOrEmpty_def twoRangeState_def
        activeLiquidityOf_def examplePosition_def isPositionActive_def numAdd_small)

lemma twoRange_first:
  "updateLoop (poolAtTick (- 50)) ''t1'' twoRangeState
   = twoRangeState
       \<lparr>rollingData := [''0xA1'' \<mapsto> [percentageOf 2 18]],
        csv := [\<lparr>row_timestamp = ''t1'', row_address = ''0xA1'', row_activeLiquidity = 2,
                 row_percentageOfDepth = percentageOf 2 18,
                 row_rollingAvg = rollingAvgOf [percentageOf 2 18],
                 row_currentTick = Some (- 50),
                 row_currentPrice =
                   Some (roundDouble (roundDouble ((real (toNumber (2 ^ 96))) ^ 2) / 2 ^ 192))\<rparr>]\<rparr>"
  by (simp add: updateLoop_def poolAtTick_def catchUpdateLoop_def Let_def
        activeLiquidityByAddress_def positionsOrEmpty_def
        activeLiquidityOf_def examplePosition_def isPositionActive_def numAdd_small
        twoRangeState_def pushValue_def WINDOW_SIZE_def)

lemma twoRange_second:
  "map row_percentageOfDepth
     (csv (updateLoop (poolAtTick 50) ''t2'' (updateLoop (poolAtTick (- 50)) ''t1'' twoRangeState)))
     = [percentageOf 2 18, percentageOf 4 18]
   \<and> map row_rollingAvg
     (csv (updateLoop (poolAtTick 50) ''t2'' (updateLoop (poolAtTick (- 50)) ''t1'' twoRangeState)))
     = [rollingAvgOf [percentageOf 2 18], rollingAvgOf [percentageOf 2 18, percentageOf 4 18]]
   \<and> rollingData
     (updateLoop (poolAtTick 50) ''t2'' (updateLoop (poolAtTick (- 50)) ''t1'' twoRangeState))
     ''0xA1'' = Some [percentageOf 2 18, percentageOf 4 18]"
  unfolding twoRange_first
  by (simp add: updateLoop_def poolAtTick_def catchUpdateLoop_def Let_def
        activeLiquidityByAddress_def positionsOrEmpty_def
        activeLiquidityOf_def examplePosition_def isPositionActive_def numAdd_small
        twoRangeState_def pushValue_def WINDOW_SIZE_def)


subsection \<open>Windows and rows over a run\<close>

text \<open>
  The invariant that ties the windows to the log: the window of an address is what
  the pushes of the percentages logged for it leave, and the rolling average of each
  row is the average of the window right after that row's push.
\<close>

lemma pushedFor_snoc:
  "pushedFor a (rows @ [r])
   = (if row_address r = a then pushedFor a rows @ [row_percentageOfDepth r]
      else pushedFor a rows)"
  by (simp add: pushedFor_def)

lemma logRows_follows_log:
  assumes "(\<forall>a w. rollingData st a = Some w \<longrightarrow> w = foldl (\<lambda>values v. pushValue v values) [] (pushedFor a (csv st)))
       \<and> (\<forall>i < length (csv st). row_rollingAvg (csv st ! i)
        = rollingAvgOf (foldl (\<lambda>values v. pushValue v values) []
            (pushedFor (row_address (csv st ! i)) (take (Suc i) (csv st)))))"
  shows "(\<forall>a w. rollingData (fst (logRows ts e tc pc addrs st)) a = Some w \<longrightarrow> w = foldl (\<lambda>values v. pushValue v values) [] (pushedFor a (csv (fst (logRows ts e tc pc addrs st)))))
       \<and> (\<forall>i < length (csv (fst (logRows ts e tc pc addrs st))). row_rollingAvg (csv (fst (logRows ts e tc pc addrs st)) ! i)
        = rollingAvgOf (foldl (\<lambda>values v. pushValue v values) []
            (pushedFor (row_address (csv (fst (logRows ts e tc pc addrs st)) ! i)) (take (Suc i) (csv (fst (logRows ts e tc pc addrs st)))))))"
  using assms
proof (induction addrs arbitrary: st)
  case Nil
  then show ?case by simp
next
  case (Cons addr rest)
  show ?case
  proof (cases "rollingData st addr")
    case None
    with Cons.prems show ?thesis by simp
  next
    case (Some vs)
    let ?row = "\<lparr>row_timestamp = ts, row_address = addr,
                  row_activeLiquidity = fst (e addr), row_percentageOfDepth = snd (e addr),
                  row_rollingAvg = rollingAvgOf (pushValue (snd (e addr)) vs),
                  row_currentTick = tc, row_currentPrice = pc\<rparr>"
    let ?st = "st\<lparr>rollingData := (rollingData st)(addr \<mapsto> pushValue (snd (e addr)) vs),
                    csv := csv st @ [?row]\<rparr>"
    have step: "logRows ts e tc pc (addr # rest) st = logRows ts e tc pc rest ?st"
      using Some by (simp add: Let_def)
    from Cons.prems Some
    have vs: "vs = foldl (\<lambda>values v. pushValue v values) [] (pushedFor addr (csv st))"
      by blast
    have windows: "(\<forall>a w. rollingData ?st a = Some w \<longrightarrow> w = foldl (\<lambda>values v. pushValue v values) [] (pushedFor a (csv ?st)))"
    proof (intro allI impI)
      fix a w
      assume a: "rollingData ?st a = Some w"
      show "w = foldl (\<lambda>values v. pushValue v values) [] (pushedFor a (csv ?st))"
      proof (cases "a = addr")
        case True
        with a have "w = pushValue (snd (e addr)) vs" by simp
        with vs True show ?thesis by (simp add: pushedFor_snoc)
      next
        case False
        with a have "rollingData st a = Some w" by simp
        with Cons.prems have "w = foldl (\<lambda>values v. pushValue v values) [] (pushedFor a (csv st))"
          by blast
        with False show ?thesis by (simp add: pushedFor_snoc)
      qed
    qed
    have rows: "(\<forall>i < length (csv ?st). row_rollingAvg (csv ?st ! i)
        = rollingAvgOf (foldl (\<lambda>values v. pushValue v values) []
            (pushedFor (row_address (csv ?st ! i)) (take (Suc i) (csv ?st)))))"
    proof (intro allI impI)
      fix i
      assume i: "i < length (csv ?st)"
      show "row_rollingAvg (csv ?st ! i)
        = rollingAvgOf (foldl (\<lambda>values v. pushValue v values) []
            (pushedFor (row_address (csv ?st ! i)) (take (Suc i) (csv ?st))))"
      proof (cases "i < length (csv st)")
        case True
        with Cons.prems have "row_rollingAvg (csv st ! i)
          = rollingAvgOf (foldl (\<lambda>values v. pushValue v values) []
              (pushedFor (row_address (csv st ! i)) (take (Suc i) (csv st))))"
          by blast
        with True show ?thesis by (simp add: nth_append)
      next
        case False
        with i have "i = length (csv st)" by simp
        with vs show ?thesis by (simp add: pushedFor_snoc)
      qed
    qed
    from Cons.IH [of ?st] windows rows show ?thesis
      unfolding step by blast
  qed
qed

lemma follows_log_fields:
  assumes "csv st' = csv st" and "rollingData st' = rollingData st"
    and "(\<forall>a w. rollingData st a = Some w \<longrightarrow> w = foldl (\<lambda>values v. pushValue v values) [] (pushedFor a (csv st)))
       \<and> (\<forall>i < length (csv st). row_rollingAvg (csv st ! i)
        = rollingAvgOf (foldl (\<lambda>values v. pushValue v values) []
            (pushedFor (row_address (csv st ! i)) (take (Suc i) (csv st)))))"
  shows "(\<forall>a w. rollingData st' a = Some w \<longrightarrow> w = foldl (\<lambda>values v. pushValue v values) [] (pushedFor a (csv st')))
       \<and> (\<forall>i < length (csv st'). row_rollingAvg (csv st' ! i)
        = rollingAvgOf (foldl (\<lambda>values v. pushValue v values) []
            (pushedFor (row_address (csv st' ! i)) (take (Suc i) (csv st')))))"
  using assms by simp

lemma updateLoop_follows_log:
  assumes "(\<forall>a w. rollingData st a = Some w \<longrightarrow> w = foldl (\<lambda>values v. pushValue v values) [] (pushedFor a (csv st)))
       \<and> (\<forall>i < length (csv st). row_rollingAvg (csv st ! i)
        = rollingAvgOf (foldl (\<lambda>values v. pushValue v values) []
            (pushedFor (row_address (csv st ! i)) (take (Suc i) (csv st)))))"
  shows "(\<forall>a w. rollingData (updateLoop poolContract timestamp st) a = Some w \<longrightarrow> w = foldl (\<lambda>values v. pushValue v values) [] (pushedFor a (csv (updateLoop poolContract timestamp st))))
       \<and> (\<forall>i < length (csv (updateLoop poolContract timestamp st)). row_rollingAvg (csv (updateLoop poolContract timestamp st) ! i)
        = rollingAvgOf (foldl (\<lambda>values v. pushValue v values) []
            (pushedFor (row_address (csv (updateLoop poolContract timestamp st) ! i)) (take (Suc i) (csv (updateLoop poolContract timestamp st))))))"
proof (cases "slot0 poolContract")
  case (Inl err)
  then have "csv (updateLoop poolContract timestamp st) = csv st"
    and "rollingData (updateLoop poolContract timestamp st) = rollingData st"
    by (simp_all add: updateLoop_def catchUpdateLoop_def)
  from follows_log_fields [OF this assms] show ?thesis .
next
  case s0: (Inr s0)
  show ?thesis
  proof (cases "pool_liquidity poolContract")
    case (Inl err)
    with s0 have "csv (updateLoop poolContract timestamp st) = csv st"
      and "rollingData (updateLoop poolContract timestamp st) = rollingData st"
      by (simp_all add: updateLoop_def catchUpdateLoop_def)
    from follows_log_fields [OF this assms] show ?thesis .
  next
    case (Inr liq)
    from updateLoop_sampled [OF s0 Inr, of timestamp st] obtain e tc pc where
      u: "updateLoop poolContract timestamp st
            = catchUpdateLoop (logRows timestamp e tc pc (addresses st) st)"
      by blast
    have "csv (updateLoop poolContract timestamp st)
            = csv (fst (logRows timestamp e tc pc (addresses st) st))"
      and "rollingData (updateLoop poolContract timestamp st)
            = rollingData (fst (logRows timestamp e tc pc (addresses st) st))"
      unfolding u by (simp_all add: catchUpdateLoop_fields)
    from follows_log_fields [OF this logRows_follows_log [OF assms]] show ?thesis .
  qed
qed

lemma cycle_follows_log:
  assumes "(\<forall>a w. rollingData st a = Some w \<longrightarrow> w = foldl (\<lambda>values v. pushValue v values) [] (pushedFor a (csv st)))
       \<and> (\<forall>i < length (csv st). row_rollingAvg (csv st ! i)
        = rollingAvgOf (foldl (\<lambda>values v. pushValue v values) []
            (pushedFor (row_address (csv st ! i)) (take (Suc i) (csv st)))))"
  shows "(\<forall>a w. rollingData (fst (cycle m inp st)) a = Some w \<longrightarrow> w = foldl (\<lambda>values v. pushValue v values) [] (pushedFor a (csv (fst (cycle m inp st)))))
       \<and> (\<forall>i < length (csv (fst (cycle m inp st))). row_rollingAvg (csv (fst (cycle m inp st)) ! i)
        = rollingAvgOf (foldl (\<lambda>values v. pushValue v values) []
            (pushedFor (row_address (csv (fst (cycle m inp st)) ! i)) (take (Suc i) (csv (fst (cycle m inp st)))))))"
proof (cases m)
  case (ActiveMode poolAddress)
  then have "fst (cycle m inp st) = updateLoop (pool inp) (now inp) st"
    by (simp add: cycle_def)
  with updateLoop_follows_log [OF assms, of "pool inp" "now inp"] show ?thesis by simp
next
  case DegradedMode
  then have "fst (cycle m inp st)
      = fst (logRows (now inp) (\<lambda>addr. (0, 0)) None None (addresses st) st)"
    by (simp add: cycle_def updateLoopNoPool_def)
  with logRows_follows_log [OF assms, of "now inp" "\<lambda>addr. (0, 0)" None None "addresses st"]
  show ?thesis by simp
qed

lemma runCycles_follows_log:
  assumes "(\<forall>a w. rollingData st a = Some w \<longrightarrow> w = foldl (\<lambda>values v. pushValue v values) [] (pushedFor a (csv st)))
       \<and> (\<forall>i < length (csv st). row_rollingAvg (csv st ! i)
        = rollingAvgOf (foldl (\<lambda>values v. pushValue v values) []
            (pushedFor (row_address (csv st ! i)) (take (Suc i) (csv st)))))"
  shows "(\<forall>a w. rollingData (fst (runCycles m inps st)) a = Some w \<longrightarrow> w = foldl (\<lambda>values v. pushValue v values) [] (pushedFor a (csv (fst (runCycles m inps st)))))
       \<and> (\<forall>i < length (csv (fst (runCycles m inps st))). row_rollingAvg (csv (fst (runCycles m inps st)) ! i)
        = rollingAvgOf (foldl (\<lambda>values v. pushValue v values) []
            (pushedFor (row_address (csv (fst (runCycles m inps st)) ! i)) (take (Suc i) (csv (fst (runCycles m inps st)))))))"
  using assms
proof (induction inps arbitrary: st)
  case Nil
  then show ?case by simp
next
  case (Cons inp inps)
  obtain st' r where c: "cycle m inp st = (st', r)" by (cases "cycle m inp st")
  from cycle_follows_log [OF Cons.prems, of m inp] c
  have inv: "(\<forall>a w. rollingData st' a = Some w \<longrightarrow> w = foldl (\<lambda>values v. pushValue v values) [] (pushedFor a (csv st')))
       \<and> (\<forall>i < length (csv st'). row_rollingAvg (csv st' ! i)
        = rollingAvgOf (foldl (\<lambda>values v. pushValue v values) []
            (pushedFor (row_address (csv st' ! i)) (take (Suc i) (csv st')))))"
    by simp
  show ?case
  proof (cases r)
    case None
    with c have "runCycles m (inp # inps) st = runCycles m inps st'" by simp
    with Cons.IH [OF inv] show ?thesis by simp
  next
    case (Some err)
    with c have "fst (runCycles m (inp # inps) st) = st'" by simp
    with inv show ?thesis by simp
  qed
qed

lemma loadPositionsLoop_empty:
  "(\<forall>a w. rollingData st a = Some w \<longrightarrow> w = []) \<Longrightarrow>
   rollingData (loadPositionsLoop src addrs st) a = Some w \<Longrightarrow> w = []"
proof (induction addrs arbitrary: st)
  case Nil
  then show ?case by simp
next
  case (Cons addr rest)
  obtain pos errs where f: "fetchPositionsForAddress src addr = (pos, errs)"
    by (cases "fetchPositionsForAddress src addr")
  let ?st = "st\<lparr>positionsByAddress := (positionsByAddress st)(addr \<mapsto> pos),
                  rollingData := (rollingData st)(addr \<mapsto> []),
                  stderr := stderr st @ errs\<rparr>"
  have step: "loadPositionsLoop src (addr # rest) st = loadPositionsLoop src rest ?st"
    using f by simp
  from Cons.prems(1) have inv: "\<forall>a w. rollingData ?st a = Some w \<longrightarrow> w = []"
    by auto
  from Cons.prems(2) have "rollingData (loadPositionsLoop src rest ?st) a = Some w"
    unfolding step .
  with Cons.IH [OF inv] show ?case .
qed

lemma main_follows_log:
  "(\<forall>a w. rollingData (fst (main src ethers getPool addrs inps)) a = Some w \<longrightarrow> w = foldl (\<lambda>values v. pushValue v values) [] (pushedFor a (csv (fst (main src ethers getPool addrs inps)))))
   \<and> (\<forall>i < length (csv (fst (main src ethers getPool addrs inps))). row_rollingAvg (csv (fst (main src ethers getPool addrs inps)) ! i)
        = rollingAvgOf (foldl (\<lambda>values v. pushValue v values) []
            (pushedFor (row_address (csv (fst (main src ethers getPool addrs inps)) ! i)) (take (Suc i) (csv (fst (main src ethers getPool addrs inps)))))))"
proof -
  let ?st = "loadAllPositions src (initialState addrs)"
  have init: "\<forall>a w. rollingData (initialState addrs) a = Some w \<longrightarrow> w = []"
    by (simp add: initialState_def)
  have empty: "\<forall>a w. rollingData ?st a = Some w \<longrightarrow> w = []"
    unfolding loadAllPositions_def using loadPositionsLoop_empty [OF init] by blast
  have csv: "csv ?st = []"
    using loadAllPositions_loaded [of src addrs] by blast
  from empty csv have inv: "(\<forall>a w. rollingData ?st a = Some w \<longrightarrow> w = foldl (\<lambda>values v. pushValue v values) [] (pushedFor a (csv ?st)))
       \<and> (\<forall>i < length (csv ?st). row_rollingAvg (csv ?st ! i)
        = rollingAvgOf (foldl (\<lambda>values v. pushValue v values) []
            (pushedFor (row_address (csv ?st ! i)) (take (Suc i) (csv ?st)))))"
    by (simp add: pushedFor_def)
  obtain st m queries where s: "startup src ethers getPool addrs = (st, m, queries)"
    by (cases "startup src ethers getPool addrs")
  then have "st = ?st \<or> (\<exists>x. st = ?st\<lparr>stderr := x\<rparr>)"
    by (auto simp: startup_def Let_def split: prod.splits sum.splits option.splits)
  then have "csv st = csv ?st" and "rollingData st = rollingData ?st"
    by auto
  from follows_log_fields [OF this inv]
  have "(\<forall>a w. rollingData st a = Some w \<longrightarrow> w = foldl (\<lambda>values v. pushValue v values) [] (pushedFor a (csv st)))
       \<and> (\<forall>i < length (csv st). row_rollingAvg (csv st ! i)
        = rollingAvgOf (foldl (\<lambda>values v. pushValue v values) []
            (pushedFor (row_address (csv st ! i)) (take (Suc i) (csv st)))))"
    .
  from runCycles_follows_log [OF this, of m inps] s show ?thesis
    by (simp add: main_def)
qed

lemma example_fetch:
  "fetchPositionsForAddress (exampleSource (Inr 2) (Inr exampleRawPosition)) ''0xA1''
   = ([examplePosition, examplePosition], [])"
proof -
  have m: "matchesTargetPool examplePosition"
    by (simp add: matchesTargetPool_def examplePosition_def FEE_def)
  have p: "toPosition exampleRawPosition = examplePosition"
    by (simp add: toPosition_def exampleRawPosition_def examplePosition_def toNumber_def)
  have one: "toNumber 2 = 2" by (simp add: toNumber_def)
  show ?thesis
    by (simp add: fetchPositionsForAddress_def fetchPositionsTry_def exampleSource_def one
          promiseAll_def filterTargetPool_def p m Let_def upt_conv_Cons)
qed

lemma example_resolve:
  "totalPositions st \<noteq> 0 \<Longrightarrow>
   fst (getTargetPoolAddress exampleEthers exampleFactory st) = Inr (Some ''0xP001'')"
  by (simp add: getTargetPoolAddress_def toChecksumAddress_def exampleEthers_def
        exampleFactory_def ZERO_ADDRESS_def Let_def)

lemma example_active_startup:
  "startup (exampleSource (Inr 2) (Inr exampleRawPosition)) exampleEthers exampleFactory [''0xA1'']
   = (\<lparr>addresses = [''0xA1''], positionsByAddress = [''0xA1'' \<mapsto> [examplePosition, examplePosition]],
       rollingData = [''0xA1'' \<mapsto> []], csv = [], stderr = []\<rparr>,
      ActiveMode ''0xP001'',
      snd (getTargetPoolAddress exampleEthers exampleFactory
        \<lparr>addresses = [''0xA1''], positionsByAddress = [''0xA1'' \<mapsto> [examplePosition, examplePosition]],
         rollingData = [''0xA1'' \<mapsto> []], csv = [], stderr = []\<rparr>))"
proof -
  let ?st = "\<lparr>addresses = [''0xA1''], positionsByAddress = [''0xA1'' \<mapsto> [examplePosition, examplePosition]],
       rollingData = [''0xA1'' \<mapsto> []], csv = [], stderr = []\<rparr>"
  have load: "loadAllPositions (exampleSource (Inr 2) (Inr exampleRawPosition))
      (initialState [''0xA1'']) = ?st"
    by (simp add: loadAllPositions_def initialState_def example_fetch)
  have "totalPositions ?st \<noteq> 0"
    by (simp add: totalPositions_def positionsOrEmpty_def)
  from example_resolve [OF this] show ?thesis
    by (cases "getTargetPoolAddress exampleEthers exampleFactory ?st")
      (simp add: startup_def load)
qed

lemma example_active_run:
  "rollingData (fst (main (exampleSource (Inr 2) (Inr exampleRawPosition)) exampleEthers exampleFactory
          [''0xA1'']
          [\<lparr>now = ''t1'', pool = examplePool 2000\<rparr>, \<lparr>now = ''t2'', pool = examplePool 2000\<rparr>])) ''0xA1'' = Some [50, 50]
   \<and> length (csv (fst (main (exampleSource (Inr 2) (Inr exampleRawPosition)) exampleEthers exampleFactory
          [''0xA1'']
          [\<lparr>now = ''t1'', pool = examplePool 2000\<rparr>, \<lparr>now = ''t2'', pool = examplePool 2000\<rparr>]))) = 2"
proof -
  have n: "numAdd 500 500 = 1000" "toNumber 2000 = 2000"
    by (simp_all add: numAdd_def toNumber_def)
  have p: "percentageOf 1000 2000 = 50"
    by (simp add: percentageOf_def roundDouble_eval)
  show ?thesis
    by (simp add: main_def example_active_startup cycle_def updateLoop_def examplePool_def
          catchUpdateLoop_def n p Let_def pushValue_def rollingAvgOf_def WINDOW_SIZE_def
          activeLiquidityByAddress_def positionsOrEmpty_def
          activeLiquidityOf_def examplePosition_def isPositionActive_def numAdd_0_500
          roundDouble_examples)
qed

text \<open>
  C2, as the script computes it. Start from the empty window and push the values
  \<open>pushed\<close> one after the other: the window never holds more than \<open>W = 72\<close> values,
  it holds the most recent \<open>min (length pushed) W\<close> of them in order, and after
  \<open>W + k\<close> pushes the oldest \<open>k\<close> are gone. In the program, after startup and any
  number of cycles in either mode, the window of every address is the most recent
  \<open>W\<close> (or fewer) of the percentages logged for that address, and the rolling
  average of every row is the average of exactly the most recent \<open>W\<close> (or fewer)
  percentages logged for its address up to and including that row. That average is
  their sum from the left in double arithmetic, divided by their count in double
  arithmetic: the arithmetic mean up to the rounding of each addition and of the
  division.
\<close>

theorem rolling_window_fifo_average:
  "length (foldl (\<lambda>values v. pushValue v values) [] pushed) \<le> WINDOW_SIZE
   \<and> foldl (\<lambda>values v. pushValue v values) [] pushed = drop (length pushed - WINDOW_SIZE) pushed
   \<and> (length pushed = WINDOW_SIZE + k \<longrightarrow>
        foldl (\<lambda>values v. pushValue v values) [] pushed = drop k pushed
        \<and> length (drop k pushed) = WINDOW_SIZE)
   \<and> (rollingData (fst (main src ethers getPool addrs inps)) addr = Some values \<longrightarrow>
        values = drop (length (pushedFor addr (csv (fst (main src ethers getPool addrs inps)))) - WINDOW_SIZE)
                   (pushedFor addr (csv (fst (main src ethers getPool addrs inps))))
        \<and> length values \<le> WINDOW_SIZE)
   \<and> (i < length (csv (fst (main src ethers getPool addrs inps))) \<longrightarrow>
        row_rollingAvg (csv (fst (main src ethers getPool addrs inps)) ! i)
          = rollingAvgOf
              (drop (length (pushedFor (row_address (csv (fst (main src ethers getPool addrs inps)) ! i)) (take (Suc i) (csv (fst (main src ethers getPool addrs inps)))))
                       - WINDOW_SIZE)
                 (pushedFor (row_address (csv (fst (main src ethers getPool addrs inps)) ! i)) (take (Suc i) (csv (fst (main src ethers getPool addrs inps)))))))
   \<and> rollingAvgOf vs
        = roundDouble (foldl (\<lambda>acc val. roundDouble (acc + val)) 0 vs / real (length vs))"
proof -
  note inv = main_follows_log [of src ethers getPool addrs inps, unfolded pushes_drop]
  have pushes: "length (foldl (\<lambda>values v. pushValue v values) [] pushed) \<le> WINDOW_SIZE
      \<and> foldl (\<lambda>values v. pushValue v values) [] pushed
          = drop (length pushed - WINDOW_SIZE) pushed
      \<and> (length pushed = WINDOW_SIZE + k \<longrightarrow>
           foldl (\<lambda>values v. pushValue v values) [] pushed = drop k pushed
           \<and> length (drop k pushed) = WINDOW_SIZE)"
    by (simp add: pushes_drop)
  have bound: "length (drop (length ps - WINDOW_SIZE) ps) \<le> WINDOW_SIZE" for ps :: "real list"
    by simp
  have avg: "rollingAvgOf vs
        = roundDouble (foldl (\<lambda>acc val. roundDouble (acc + val)) 0 vs / real (length vs))"
    by (simp add: rollingAvgOf_def)
  from inv pushes bound avg show ?thesis by blast
qed

theorem rolling_window_fifo_average_witness:
  "length (map real [1..<74]) = WINDOW_SIZE + 1
   \<and> foldl (\<lambda>values v. pushValue v values) [] (map real [1..<74]) = drop 1 (map real [1..<74])
   \<and> length (drop 1 (map real [1..<74])) = WINDOW_SIZE
   \<and> rollingData (fst (main (exampleSource (Inr 2) (Inr exampleRawPosition)) exampleEthers exampleFactory
          [''0xA1'']
          [\<lparr>now = ''t1'', pool = examplePool 2000\<rparr>, \<lparr>now = ''t2'', pool = examplePool 2000\<rparr>])) ''0xA1'' = Some [50, 50]
   \<and> [50, 50] = drop (length (pushedFor ''0xA1'' (csv (fst (main (exampleSource (Inr 2) (Inr exampleRawPosition)) exampleEthers exampleFactory
          [''0xA1'']
          [\<lparr>now = ''t1'', pool = examplePool 2000\<rparr>, \<lparr>now = ''t2'', pool = examplePool 2000\<rparr>])))) - WINDOW_SIZE)
                   (pushedFor ''0xA1'' (csv (fst (main (exampleSource (Inr 2) (Inr exampleRawPosition)) exampleEthers exampleFactory
          [''0xA1'']
          [\<lparr>now = ''t1'', pool = examplePool 2000\<rparr>, \<lparr>now = ''t2'', pool = examplePool 2000\<rparr>]))))
   \<and> length [50, 50 :: real] \<le> WINDOW_SIZE
   \<and> (1 :: nat) < length (csv (fst (main (exampleSource (Inr 2) (Inr exampleRawPosition)) exampleEthers exampleFactory
          [''0xA1'']
          [\<lparr>now = ''t1'', pool = examplePool 2000\<rparr>, \<lparr>now = ''t2'', pool = examplePool 2000\<rparr>])))
   \<and> row_rollingAvg (csv (fst (main (exampleSource (Inr 2) (Inr exampleRawPosition)) exampleEthers exampleFactory
          [''0xA1'']
          [\<lparr>now = ''t1'', pool = examplePool 2000\<rparr>, \<lparr>now = ''t2'', pool = examplePool 2000\<rparr>])) ! 1)
        = rollingAvgOf
            (drop (length (pushedFor (row_address (csv (fst (main (exampleSource (Inr 2) (Inr exampleRawPosition)) exampleEthers exampleFactory
          [''0xA1'']
          [\<lparr>now = ''t1'', pool = examplePool 2000\<rparr>, \<lparr>now = ''t2'', pool = examplePool 2000\<rparr>])) ! 1)) (take (Suc 1) (csv (fst (main (exampleSource (Inr 2) (Inr exampleRawPosition)) exampleEthers exampleFactory
          [''0xA1'']
          [\<lparr>now = ''t1'', pool = examplePool 2000\<rparr>, \<lparr>now = ''t2'', pool = examplePool 2000\<rparr>])))))
                     - WINDOW_SIZE)
               (pushedFor (row_address (csv (fst (main (exampleSource (Inr 2) (Inr exampleRawPosition)) exampleEthers exampleFactory
          [''0xA1'']
          [\<lparr>now = ''t1'', pool = examplePool 2000\<rparr>, \<lparr>now = ''t2'', pool = examplePool 2000\<rparr>])) ! 1)) (take (Suc 1) (csv (fst (main (exampleSource (Inr 2) (Inr exampleRawPosition)) exampleEthers exampleFactory
          [''0xA1'']
          [\<lparr>now = ''t1'', pool = examplePool 2000\<rparr>, \<lparr>now = ''t2'', pool = examplePool 2000\<rparr>]))))))"
proof -
  let ?src = "exampleSource (Inr 2) (Inr exampleRawPosition)"
  let ?inps = "[\<lparr>now = ''t1'', pool = examplePool 2000\<rparr>, \<lparr>now = ''t2'', pool = examplePool 2000\<rparr>]"
  have len: "length (map real [1..<74]) = WINDOW_SIZE + 1"
    by (simp add: WINDOW_SIZE_def)
  note push = rolling_window_fifo_average [of "map real [1..<74]" 1,
      THEN conjunct2, THEN conjunct2, THEN conjunct1, rule_format, OF len]
  from example_active_run have w: "rollingData (fst (main (exampleSource (Inr 2) (Inr exampleRawPosition)) exampleEthers exampleFactory
          [''0xA1'']
          [\<lparr>now = ''t1'', pool = examplePool 2000\<rparr>, \<lparr>now = ''t2'', pool = examplePool 2000\<rparr>])) ''0xA1'' = Some [50, 50]"
    and i: "(1 :: nat) < length (csv (fst (main (exampleSource (Inr 2) (Inr exampleRawPosition)) exampleEthers exampleFactory
          [''0xA1'']
          [\<lparr>now = ''t1'', pool = examplePool 2000\<rparr>, \<lparr>now = ''t2'', pool = examplePool 2000\<rparr>])))"
    by simp_all
  note win = rolling_window_fifo_average [of _ _ ?src exampleEthers exampleFactory "[''0xA1'']" ?inps,
      THEN conjunct2, THEN conjunct2, THEN conjunct2, THEN conjunct1, rule_format, OF w]
  note avg = rolling_window_fifo_average [of _ _ ?src exampleEthers exampleFactory "[''0xA1'']" ?inps,
      THEN conjunct2, THEN conjunct2, THEN conjunct2, THEN conjunct2, THEN conjunct1,
      rule_format, OF i]
  show ?thesis
    by (intro conjI)
      (rule len push [THEN conjunct1] push [THEN conjunct2] w win [THEN conjunct1]
         win [THEN conjunct2] i avg)+
qed

text \<open>
  C2 does not hold for the exact mean. The address of \<open>twoRangeState\<close> holds
  \<open>2/18\<close> of the pool in one cycle and \<open>4/18\<close> in the next; the percentages pushed
  are the doubles \<^verbatim>\<open>11.11111111111111\<close> and \<^verbatim>\<open>22.22222222222222\<close>, and the
  rolling average logged with the second is \<^verbatim>\<open>16.666666666666664\<close>, which is
  not the mean of the two: their sum needs one bit more than a double has.
\<close>

theorem rolling_average_not_exact_mean_counterexample:
  "rollingData
     (updateLoop (poolAtTick 50) ''t2'' (updateLoop (poolAtTick (- 50)) ''t1'' twoRangeState))
     ''0xA1'' = Some [3127499741229511 / 2 ^ 48, 3127499741229511 / 2 ^ 47]
   \<and> map row_rollingAvg
     (csv (updateLoop (poolAtTick 50) ''t2'' (updateLoop (poolAtTick (- 50)) ''t1'' twoRangeState)))
     = [3127499741229511 / 2 ^ 48, 2345624805922133 / 2 ^ 47]
   \<and> sum_list [3127499741229511 / 2 ^ 48, 3127499741229511 / 2 ^ 47 :: real]
        / real (length [3127499741229511 / 2 ^ 48, 3127499741229511 / 2 ^ 47 :: real])
      = 9382499223688533 / 2 ^ 49
   \<and> (2345624805922133 / 2 ^ 47 :: real) \<noteq> 9382499223688533 / 2 ^ 49"
proof -
  have mean: "sum_list [3127499741229511 / 2 ^ 48, 3127499741229511 / 2 ^ 47 :: real]
        / real (length [3127499741229511 / 2 ^ 48, 3127499741229511 / 2 ^ 47 :: real])
      = 9382499223688533 / 2 ^ 49"
    by simp
  have ne: "(2345624805922133 / 2 ^ 47 :: real) \<noteq> 9382499223688533 / 2 ^ 49"
    by simp
  note run = twoRange_second [unfolded rollingAvgOf_examples, unfolded percentageOf_examples]
  from run mean ne show ?thesis
    by (simp only: simp_thms)
qed

end
